theory Spec2Isabelle
  imports Main "HOL-Library.AList"
begin

section \<open>The TypeScript service client: data model\<close>

text \<open>
  Shallow embedding of \<^verbatim>\<open>extensions/typescript-language-features/src/typescriptServiceClient.ts\<close>.

  Sequence numbers and counters are JavaScript numbers that only ever hold small
  non-negative integers (they start at 0 and grow by one per request), far below
  \<open>2^53\<close> where the arithmetic stops being exact; they are modelled as \<open>nat\<close>, and
  \<open>pendingResponses\<close>, which is decremented, and time stamps as \<open>int\<close>.
  Opaque payloads (request arguments, response bodies) are strings.
\<close>

record Response =
  request_seq :: nat
  success :: bool
  body :: string
  message :: string

text \<open>Values of type \<^verbatim>\<open>any\<close> that the client hands to callbacks, stores or throws.\<close>

datatype any =
    Undefined
  | Payload string
  | ErrorObj string
  | ResponseObj Response

text \<open>
  A callback is a closure; the ones the client creates are the \<^verbatim>\<open>resolve\<close> and
  \<^verbatim>\<open>reject\<close> functions of the promise allocated by \<^verbatim>\<open>executeImpl\<close>. The number
  identifies the promise object.
\<close>

datatype fn = ResolveFn nat | RejectFn nat

record CallbackItem =
  c :: fn
  e :: fn
  start :: int

record Request =
  seq :: nat
  command :: string
  arguments :: string

text \<open>Everything the client does to the outside world is appended to a log of effects.\<close>

datatype effect =
    Call fn any
  | TraceRequest Request
  | Write Request
  | WriteFileSync string
  | Kill
  | Fire string
  | ShowErrorMessage string
  | ShowWarningMessage string
  | LogTelemetry string
  | LogError string any
  | DispatchEvent string

section \<open>CallbackMap\<close>

text \<open>
  The two \<^verbatim>\<open>Map<number, CallbackItem>\<close> are association lists: a JavaScript map
  iterates in insertion order, \<^verbatim>\<open>set\<close> on a present key replaces the value in place
  and on an absent key appends, which is \<^const>\<open>AList.update\<close>.
\<close>

record CallbackMap =
  callbacks :: "(nat \<times> CallbackItem) list"
  asyncCallbacks :: "(nat \<times> CallbackItem) list"
  pendingResponses :: int

definition new_CallbackMap :: CallbackMap where
  "new_CallbackMap = \<lparr>callbacks = [], asyncCallbacks = [], pendingResponses = 0\<rparr>"

text \<open>\<^verbatim>\<open>destroy(e)\<close> returns the calls it made, in order, and the table it leaves.\<close>

definition destroy :: "CallbackMap \<Rightarrow> any \<Rightarrow> effect list \<times> CallbackMap" where
  "destroy t err =
     (map (\<lambda>callback. Call (e callback) err) (map snd (callbacks t))
        @ map (\<lambda>callback. Call (e callback) err) (map snd (asyncCallbacks t)),
      t\<lparr>callbacks := [], pendingResponses := 0\<rparr>)"

definition add :: "CallbackMap \<Rightarrow> nat \<Rightarrow> CallbackItem \<Rightarrow> bool \<Rightarrow> CallbackMap" where
  "add t sq callback isAsync =
     (if isAsync then t\<lparr>asyncCallbacks := AList.update sq callback (asyncCallbacks t)\<rparr>
      else t\<lparr>callbacks := AList.update sq callback (callbacks t),
             pendingResponses := pendingResponses t + 1\<rparr>)"

definition delete :: "CallbackMap \<Rightarrow> nat \<Rightarrow> CallbackMap" where
  "delete t sq =
     (if map_of (callbacks t) sq \<noteq> None
      then t\<lparr>callbacks := AList.delete sq (callbacks t),
             pendingResponses := pendingResponses t - 1\<rparr>
      else t\<lparr>asyncCallbacks := AList.delete sq (asyncCallbacks t)\<rparr>)"

definition fetch :: "CallbackMap \<Rightarrow> nat \<Rightarrow> CallbackItem option \<times> CallbackMap" where
  "fetch t sq =
     (let callback = (case map_of (callbacks t) sq of
                        Some cb \<Rightarrow> Some cb
                      | None \<Rightarrow> map_of (asyncCallbacks t) sq)
      in (callback, delete t sq))"

section \<open>RequestQueue\<close>

text \<open>The field \<^verbatim>\<open>callbacks\<close> of a \<^verbatim>\<open>RequestItem\<close> is \<open>item_callbacks\<close> here.\<close>

record RequestItem =
  request :: Request
  item_callbacks :: "CallbackItem option"
  isAsync :: bool

record RequestQueue =
  queue :: "RequestItem list"
  sequenceNumber :: nat

definition new_RequestQueue :: RequestQueue where
  "new_RequestQueue = \<lparr>queue = [], sequenceNumber = 0\<rparr>"

definition queue_length :: "RequestQueue \<Rightarrow> nat" where
  "queue_length q = length (queue q)"

definition push :: "RequestQueue \<Rightarrow> RequestItem \<Rightarrow> RequestQueue" where
  "push q item = q\<lparr>queue := queue q @ [item]\<rparr>"

definition shift :: "RequestQueue \<Rightarrow> RequestItem option \<times> RequestQueue" where
  "shift q = (case queue q of
                [] \<Rightarrow> (None, q)
              | item # rest \<Rightarrow> (Some item, q\<lparr>queue := rest\<rparr>))"

text \<open>
  The scan of \<^verbatim>\<open>tryCancelPendingRequest\<close>: the first entry with the sequence number is
  spliced out and the scan stops.
\<close>

fun cancel_scan :: "RequestItem list \<Rightarrow> nat \<Rightarrow> bool \<times> RequestItem list" where
  "cancel_scan [] sq = (False, [])"
| "cancel_scan (item # rest) sq =
     (if seq (request item) = sq then (True, rest)
      else (case cancel_scan rest sq of (found, rest') \<Rightarrow> (found, item # rest')))"

definition tryCancelPendingRequest :: "RequestQueue \<Rightarrow> nat \<Rightarrow> bool \<times> RequestQueue" where
  "tryCancelPendingRequest q sq =
     (case cancel_scan (queue q) sq of (found, items) \<Rightarrow> (found, q\<lparr>queue := items\<rparr>))"

definition createRequest :: "RequestQueue \<Rightarrow> string \<Rightarrow> string \<Rightarrow> Request \<times> RequestQueue" where
  "createRequest q cmd args =
     (\<lparr>seq = sequenceNumber q, command = cmd, arguments = args\<rparr>,
      q\<lparr>sequenceNumber := sequenceNumber q + 1\<rparr>)"

section \<open>The client\<close>

text \<open>
  Modelled from the spec: \<^verbatim>\<open>utils/api\<close> is not part of the sources; the spec speaks of an
  "API version below 2.2.2", so a version is a triple compared as semantic versions are.
\<close>

datatype API = API nat nat nat

fun gte :: "API \<Rightarrow> API \<Rightarrow> bool" where
  "gte (API a1 a2 a3) (API b1 b2 b3) =
     (a1 > b1 \<or> (a1 = b1 \<and> (a2 > b2 \<or> (a2 = b2 \<and> a3 \<ge> b3))))"

definition v206 :: API where "v206 = API 2 0 6"
definition v222 :: API where "v222 = API 2 2 2"

text \<open>
  \<^verbatim>\<open>servicePromise\<close> is a promise for the forked process; the model keeps the state the
  promise is in.
\<close>

datatype Thenable = Pending | Fulfilled | Rejected any

text \<open>
  The fields of \<^verbatim>\<open>TypeScriptServiceClient\<close> that the modelled methods read or write.
  The field \<^verbatim>\<open>callbacks\<close> of the class is \<open>client_callbacks\<close> here. The last group is
  what the methods read from their collaborators: \<open>now\<close> is what \<^verbatim>\<open>Date.now()\<close> returns,
  \<open>versionPicker_currentVersion\<close> is \<^verbatim>\<open>this.versionPicker.currentVersion.version\<close> as
  \<^verbatim>\<open>startService\<close> reads it, \<open>tempFile\<close> is what \<^verbatim>\<open>electron.getTempFile\<close> returns,
  \<open>API_defaultVersion\<close> is the constant of that name in \<^verbatim>\<open>utils/api\<close>. \<open>promises\<close>
  counts the promise objects \<^verbatim>\<open>executeImpl\<close> has allocated, and \<open>effects\<close> is the log.
\<close>

record Client =
  servicePromise :: "Thenable option"
  lastError :: "any option"
  lastStart :: int
  numberRestarts :: nat
  isRestarting :: bool
  cancellationPipeName :: "string option"
  tsServerLogFile :: "string option"
  requestQueue :: RequestQueue
  client_callbacks :: CallbackMap
  apiVersion :: API
  tsserverVersion :: "string option"
  now :: int
  versionPicker_currentVersion :: "API option"
  tempFile :: string
  API_defaultVersion :: API
  promises :: nat
  effects :: "effect list"

definition emit :: "effect list \<Rightarrow> Client \<Rightarrow> Client" where
  "emit es s = s\<lparr>effects := effects s @ es\<rparr>"

text \<open>The constructor: \<open>t\<close> is the time of construction.\<close>

definition new_Client :: "int \<Rightarrow> API \<Rightarrow> API option \<Rightarrow> string \<Rightarrow> Client" where
  "new_Client t dv pv tf =
     \<lparr>servicePromise = None, lastError = None, lastStart = t, numberRestarts = 0,
      isRestarting = False, cancellationPipeName = None, tsServerLogFile = None,
      requestQueue = new_RequestQueue, client_callbacks = new_CallbackMap,
      apiVersion = dv, tsserverVersion = None,
      now = t, versionPicker_currentVersion = pv, tempFile = tf, API_defaultVersion = dv,
      promises = 0, effects = []\<rparr>"

definition resetClientVersion :: "Client \<Rightarrow> Client" where
  "resetClientVersion s = s\<lparr>apiVersion := API_defaultVersion s, tsserverVersion := None\<rparr>"

text \<open>
  \<^verbatim>\<open>startService\<close>, the part that runs before the first \<^verbatim>\<open>await\<close>: the version is
  chosen, a fresh queue and a fresh table are installed, the promise is created, and
  \<^verbatim>\<open>getTsServerArgs\<close> runs up to its own first \<^verbatim>\<open>await\<close>, where it names the cancellation
  pipe. The log line, the warning about a missing server path with the fallback to the
  bundled version (inside the version picker) and the notification of the version
  change belong to the collaborators and leave no trace here. What follows the
  \<^verbatim>\<open>await\<close> is in \<open>onForked\<close>, \<open>onForkFailed\<close> and \<open>onStartRejected\<close>.
\<close>

definition startService :: "Client \<Rightarrow> Client" where
  "startService s =
     (let s1 = s\<lparr>apiVersion := (case versionPicker_currentVersion s of
                                    Some v \<Rightarrow> v | None \<Rightarrow> API_defaultVersion s)\<rparr>;
          s2 = s1\<lparr>requestQueue := new_RequestQueue,
                  client_callbacks := new_CallbackMap,
                  lastError := None,
                  servicePromise := Some Pending\<rparr>
      in if gte (apiVersion s2) v222
         then s2\<lparr>cancellationPipeName := Some (tempFile s2)\<rparr>
         else s2)"

definition service :: "Client \<Rightarrow> Thenable \<times> Client" where
  "service s =
     (case servicePromise s of
        Some p \<Rightarrow> (p, s)
      | None \<Rightarrow>
          (case lastError s of
             Some err \<Rightarrow> (Rejected err, s)
           | None \<Rightarrow>
               (let s' = startService s
                in case servicePromise s' of
                     Some p \<Rightarrow> (p, s')
                   | None \<Rightarrow> (Rejected (ErrorObj ''Could not create TS service''), s'))))"

definition ensureServiceStarted :: "Client \<Rightarrow> Client" where
  "ensureServiceStarted s = (if servicePromise s = None then startService s else s)"

text \<open>
  \<^verbatim>\<open>sendRequest\<close>: the request is traced, its callbacks are registered, then the service
  promise is asked for. The two reactions attached to that promise run later:
  \<open>sendRequest_write\<close> when it is fulfilled, \<open>sendRequest_failed\<close> when it is rejected
  (or the write throws).
\<close>

definition sendRequest :: "Client \<Rightarrow> RequestItem \<Rightarrow> Client" where
  "sendRequest s requestItem =
     (let serverRequest = request requestItem;
          s1 = emit [TraceRequest serverRequest] s;
          s2 = (case item_callbacks requestItem of
                  Some cbs \<Rightarrow>
                    s1\<lparr>client_callbacks :=
                         add (client_callbacks s1) (seq serverRequest) cbs (isAsync requestItem)\<rparr>
                | None \<Rightarrow> s1)
      in snd (service s2))"

definition sendRequest_write :: "Client \<Rightarrow> Request \<Rightarrow> Client" where
  "sendRequest_write s serverRequest = emit [Write serverRequest] s"

definition sendRequest_failed :: "Client \<Rightarrow> Request \<Rightarrow> any \<Rightarrow> Client" where
  "sendRequest_failed s serverRequest err =
     (case fetch (client_callbacks s) (seq serverRequest) of
        (Some callback, t) \<Rightarrow> emit [Call (e callback) err] (s\<lparr>client_callbacks := t\<rparr>)
      | (None, t) \<Rightarrow> s\<lparr>client_callbacks := t\<rparr>)"

text \<open>
  The drain loop. \<^verbatim>\<open>shift\<close> returns an item whenever the queue is non-empty, so the
  branch without an item is never taken.
\<close>

function sendNextRequests :: "Client \<Rightarrow> Client" where
  "sendNextRequests s =
     (if pendingResponses (client_callbacks s) = 0 \<and> queue_length (requestQueue s) > 0
      then (case shift (requestQueue s) of
              (Some item, q) \<Rightarrow> sendNextRequests (sendRequest (s\<lparr>requestQueue := q\<rparr>) item)
            | (None, q) \<Rightarrow> s\<lparr>requestQueue := q\<rparr>)
      else s)"
  by pat_completeness auto
termination
  apply (relation "measure (\<lambda>s. length (queue (requestQueue s)))")
   apply simp
  apply (auto simp: shift_def queue_length_def sendRequest_def service_def startService_def
      new_RequestQueue_def Let_def emit_def split: list.splits option.splits)
  done

declare sendNextRequests.simps [simp del]

text \<open>The decimal digits of a number, as a template literal prints it.\<close>

function show_nat :: "nat \<Rightarrow> string" where
  "show_nat n = (if n < 10 then [''0123456789'' ! n]
                 else show_nat (n div 10) @ [''0123456789'' ! (n mod 10)])"
  by pat_completeness auto
termination
  by (relation "measure id") auto

declare show_nat.simps [simp del]

definition show_int :: "int \<Rightarrow> string" where
  "show_int n = (if n < 0 then ''-'' @ show_nat (nat (- n)) else show_nat (nat n))"

text \<open>
  \<^verbatim>\<open>tryCancelRequest\<close>: the \<^verbatim>\<open>try\<close> block computes the result, the \<^verbatim>\<open>finally\<close> block
  then fetches the callback of the sequence number and calls its failure path. The
  cancellation pipe name counts when it is a non-empty string; a failing
  \<^verbatim>\<open>writeFileSync\<close> is swallowed by the source.
\<close>

definition tryCancelRequest :: "Client \<Rightarrow> nat \<Rightarrow> bool \<times> Client" where
  "tryCancelRequest s sq =
     (let (found, q) = tryCancelPendingRequest (requestQueue s) sq;
          s1 = s\<lparr>requestQueue := q\<rparr>;
          (result, s2) =
            (if found then (True, s1)
             else (case cancellationPipeName s1 of
                     Some pipe \<Rightarrow>
                       if gte (apiVersion s1) v222 \<and> pipe \<noteq> []
                       then (True, emit [WriteFileSync (pipe @ show_nat sq)] s1)
                       else (False, s1)
                   | None \<Rightarrow> (False, s1)))
      in (case fetch (client_callbacks s2) sq of
            (Some p, t) \<Rightarrow>
              (result, emit [Call (e p) (ErrorObj (''Cancelled Request '' @ show_nat sq))]
                         (s2\<lparr>client_callbacks := t\<rparr>))
          | (None, t) \<Rightarrow> (result, s2\<lparr>client_callbacks := t\<rparr>)))"

text \<open>
  \<^verbatim>\<open>executeImpl\<close>. The promise it returns to the caller is the one numbered
  \<open>promises s\<close> (when a result is expected); the token's listener is \<open>tryCancelRequest\<close>
  with the sequence number of the request.
\<close>

definition executeImpl :: "Client \<Rightarrow> string \<Rightarrow> string \<Rightarrow> bool \<Rightarrow> bool \<Rightarrow> Client" where
  "executeImpl s cmd args is_async expectsResult =
     (let (req, q) = createRequest (requestQueue s) cmd args;
          s1 = s\<lparr>requestQueue := q\<rparr>;
          (cbs, s2) =
            (if expectsResult
             then (Some \<lparr>c = ResolveFn (promises s1), e = RejectFn (promises s1),
                          start = now s1\<rparr>,
                   s1\<lparr>promises := promises s1 + 1\<rparr>)
             else (None, s1));
          requestInfo = \<lparr>request = req, item_callbacks = cbs, isAsync = is_async\<rparr>
      in sendNextRequests (s2\<lparr>requestQueue := push (requestQueue s2) requestInfo\<rparr>))"

definition execute :: "Client \<Rightarrow> string \<Rightarrow> string \<Rightarrow> Client" where
  "execute s cmd args = executeImpl s cmd args False True"

definition executeWithoutWaitingForResponse :: "Client \<Rightarrow> string \<Rightarrow> string \<Rightarrow> Client" where
  "executeWithoutWaitingForResponse s cmd args = executeImpl s cmd args False False"

definition executeAsync :: "Client \<Rightarrow> string \<Rightarrow> string \<Rightarrow> Client" where
  "executeAsync s cmd args = executeImpl s cmd args True True"

text \<open>
  Incoming messages. An event carries its name and, for \<^verbatim>\<open>requestCompleted\<close>, the
  sequence number in its body; \<open>OtherMsg\<close> carries the \<^verbatim>\<open>type\<close> string of a message that
  is neither a response nor an event.
\<close>

datatype EventBody = RequestCompletedBody nat | OtherBody string

record Event =
  event :: string
  event_body :: "EventBody option"

datatype Message = ResponseMsg Response | EventMsg Event | OtherMsg string

text \<open>
  \<^verbatim>\<open>dispatchEvent\<close>, with the thrown value if any, case by case as the \<^verbatim>\<open>switch\<close> has
  them. Only \<^verbatim>\<open>requestCompleted\<close> touches the table: reading the sequence number off a
  missing body throws a \<^verbatim>\<open>TypeError\<close>, and a body without one finds no callback.
  \<^verbatim>\<open>telemetry\<close> reads the event name off the body without a check, so a missing body
  throws as well. \<^verbatim>\<open>configFileDiag\<close> is forwarded as it is; the diagnostics, project
  state, background update and typings installer events are handled only when they
  have a body; any other event name matches no case. \<open>DispatchEvent\<close> records that the
  body was handed to the code of the case (emitters, telemetry, buffer synchronisation);
  what that code does with the content of an opaque body is not modelled.
\<close>

definition dispatchEvent :: "Client \<Rightarrow> Event \<Rightarrow> any option \<times> Client" where
  "dispatchEvent s ev =
     (if event ev = ''requestCompleted''
      then (case event_body ev of
              None \<Rightarrow> (Some (ErrorObj ''TypeError''), s)
            | Some (RequestCompletedBody sq) \<Rightarrow>
                (case fetch (client_callbacks s) sq of
                   (Some p, t) \<Rightarrow> (None, emit [Call (c p) Undefined] (s\<lparr>client_callbacks := t\<rparr>))
                 | (None, t) \<Rightarrow> (None, s\<lparr>client_callbacks := t\<rparr>))
            | Some (OtherBody b) \<Rightarrow> (None, s))
      else if event ev = ''telemetry''
      then (case event_body ev of
              None \<Rightarrow> (Some (ErrorObj ''TypeError''), s)
            | Some b \<Rightarrow> (None, emit [DispatchEvent (event ev)] s))
      else if event ev = ''configFileDiag''
      then (None, emit [DispatchEvent (event ev)] s)
      else if event ev = ''syntaxDiag'' \<or> event ev = ''semanticDiag''
              \<or> event ev = ''suggestionDiag''
              \<or> event ev = ''projectLanguageServiceState''
              \<or> event ev = ''projectsUpdatedInBackground''
              \<or> event ev = ''beginInstallTypes'' \<or> event ev = ''endInstallTypes''
              \<or> event ev = ''typesInstallerInitializationFailed''
      then (case event_body ev of
              None \<Rightarrow> (None, s)
            | Some b \<Rightarrow> (None, emit [DispatchEvent (event ev)] s))
      else (None, s))"

text \<open>
  \<^verbatim>\<open>dispatchMessage\<close>: the \<^verbatim>\<open>try\<close> block, then \<^verbatim>\<open>sendNextRequests\<close> in the
  \<^verbatim>\<open>finally\<close> block; a value thrown in the \<^verbatim>\<open>try\<close> block is rethrown after it.
\<close>

definition dispatchMessage :: "Client \<Rightarrow> Message \<Rightarrow> any option \<times> Client" where
  "dispatchMessage s msg =
     (let (thrown, s1) =
            (case msg of
               ResponseMsg response \<Rightarrow>
                 (case fetch (client_callbacks s) (request_seq response) of
                    (Some p, t) \<Rightarrow>
                      (None, emit [Call (if success response then c p else e p)
                                        (ResponseObj response)]
                               (s\<lparr>client_callbacks := t\<rparr>))
                  | (None, t) \<Rightarrow> (None, s\<lparr>client_callbacks := t\<rparr>))
             | EventMsg ev \<Rightarrow> dispatchEvent s ev
             | OtherMsg ty \<Rightarrow>
                 (Some (ErrorObj (''Unknown message type '' @ ty @ '' received'')), s))
      in (thrown, sendNextRequests s1))"

text \<open>
  Modelled from the spec: the \<^verbatim>\<open>Reader\<close> of \<^verbatim>\<open>utils/wireProtocol\<close> is not part of the
  sources. By the spec it invokes \<^verbatim>\<open>onMessage\<close> once per decoded message and \<^verbatim>\<open>onError\<close>
  on a failure, and an unknown message type is surfaced without crashing the client.
  The two callbacks are the ones \<^verbatim>\<open>startService\<close> passes to \<^verbatim>\<open>createReader\<close>:
  \<^verbatim>\<open>dispatchMessage\<close> and the logging of a \<^verbatim>\<open>ReaderError\<close>.
\<close>

definition reader_deliver :: "Client \<Rightarrow> Message \<Rightarrow> Client" where
  "reader_deliver s msg =
     (case dispatchMessage s msg of
        (None, s') \<Rightarrow> s'
      | (Some err, s') \<Rightarrow> emit [LogError ''ReaderError'' err] s')"

text \<open>\<^verbatim>\<open>serviceStarted\<close> and \<^verbatim>\<open>setCompilerOptionsForInferredProjects\<close>; the arguments are opaque.\<close>

definition setCompilerOptionsForInferredProjects :: "Client \<Rightarrow> Client" where
  "setCompilerOptionsForInferredProjects s =
     (if \<not> gte (apiVersion s) v206 then s
      else executeWithoutWaitingForResponse s ''compilerOptionsForInferredProjects'' ''options'')"

definition serviceStarted :: "Client \<Rightarrow> bool \<Rightarrow> Client" where
  "serviceStarted s resendModels =
     (let s1 = executeWithoutWaitingForResponse s ''configure'' ''hostInfo'';
          s2 = setCompilerOptionsForInferredProjects s1
      in if resendModels then emit [Fire ''onResendModelsRequested''] s2 else s2)"

text \<open>
  The callback \<^verbatim>\<open>startService\<close> gives to \<^verbatim>\<open>electron.fork\<close>, in its two outcomes, and
  the \<^verbatim>\<open>catch\<close> block around the start. The promise that \<^verbatim>\<open>resolve\<close> and
  \<^verbatim>\<open>reject\<close> settle is the one of this start; the model takes it to be the current
  \<^verbatim>\<open>servicePromise\<close> when that is pending. After a failed fork the promise stays
  pending: the source neither resolves nor rejects it.
\<close>

definition onForkFailed :: "Client \<Rightarrow> any \<Rightarrow> Client" where
  "onForkFailed s err =
     resetClientVersion
       (emit [LogError ''Starting TSServer failed with error.'' err,
              ShowErrorMessage ''serverCouldNotBeStarted'',
              LogTelemetry ''error'']
          (s\<lparr>lastError := Some err\<rparr>))"

definition settle :: "Thenable \<Rightarrow> Client \<Rightarrow> Client" where
  "settle outcome s =
     (case servicePromise s of
        Some Pending \<Rightarrow> s\<lparr>servicePromise := Some outcome\<rparr>
      | _ \<Rightarrow> s)"

definition onForked :: "Client \<Rightarrow> bool \<Rightarrow> Client" where
  "onForked s resendModels =
     (let s1 = s\<lparr>lastStart := now s\<rparr>;
          s2 = settle Fulfilled s1;
          s3 = emit [Fire ''onTsServerStarted''] s2
      in serviceStarted s3 resendModels)"

definition onStartRejected :: "Client \<Rightarrow> any \<Rightarrow> Client" where
  "onStartRejected s err = settle (Rejected err) s"

text \<open>
  \<^verbatim>\<open>serviceExited\<close>. The message texts are named by their localisation keys.
\<close>

definition serviceExited :: "Client \<Rightarrow> bool \<Rightarrow> Client" where
  "serviceExited s restart =
     (let s1 = s\<lparr>servicePromise := None, tsServerLogFile := None\<rparr>;
          (called, t) = destroy (client_callbacks s1) (ErrorObj ''Service died.'');
          s2 = (emit called s1)\<lparr>client_callbacks := new_CallbackMap\<rparr>
      in if \<not> restart then resetClientVersion s2
         else
           (let diff = now s2 - lastStart s2;
                s3 = s2\<lparr>numberRestarts := numberRestarts s2 + 1\<rparr>
            in if numberRestarts s3 > 5
               then
                 (let s4 = s3\<lparr>numberRestarts := 0\<rparr>
                  in if diff < 10 * 1000
                     then resetClientVersion
                            (emit [ShowErrorMessage ''serverDiedAfterStart'',
                                   LogTelemetry ''serviceExited'']
                               (s4\<lparr>lastStart := now s4\<rparr>))
                     else if diff < 60 * 1000
                     then startService
                            (emit [ShowWarningMessage ''serverDied'']
                               (s4\<lparr>lastStart := now s4\<rparr>))
                     else startService s4)
               else startService s3))"

text \<open>The listeners \<^verbatim>\<open>startService\<close> registers on the process handle.\<close>

definition onError :: "Client \<Rightarrow> any \<Rightarrow> Client" where
  "onError s err =
     serviceExited
       (emit [LogError ''TSServer errored with error.'' err, LogTelemetry ''tsserver.error'']
          (s\<lparr>lastError := Some err\<rparr>))
       False"

definition onExit :: "Client \<Rightarrow> int option \<Rightarrow> Client" where
  "onExit s code =
     (let s1 = (case code of
                  None \<Rightarrow> s
                | Some n \<Rightarrow> emit [LogError (''TSServer exited with code: '' @ show_int n) Undefined,
                                  LogTelemetry ''tsserver.exitWithCode''] s);
          s2 = serviceExited s1 (\<not> isRestarting s1)
      in s2\<lparr>isRestarting := False\<rparr>)"

text \<open>
  \<^verbatim>\<open>restartTsServer\<close>: with a service promise, the kill and the new start are reactions
  chained on it, and the field holds the chained promise; without one the service is
  started at once.
\<close>

definition restartTsServer_kill :: "Client \<Rightarrow> Client" where
  "restartTsServer_kill s = resetClientVersion (emit [Kill] (s\<lparr>isRestarting := True\<rparr>))"

definition restartTsServer :: "Client \<Rightarrow> Client" where
  "restartTsServer s =
     (case servicePromise s of
        Some p \<Rightarrow> s\<lparr>servicePromise := Some Pending\<rparr>
      | None \<Rightarrow> startService s)"

section \<open>Runs of the client\<close>

text \<open>
  The client is driven by its callers and by the event loop: calls of the public
  methods, a cancellation token firing, a message read from the process, the reactions
  of \<^verbatim>\<open>sendRequest\<close>, the outcomes of a start, the process failing or exiting, and the
  collaborators' values changing. Any order is allowed: a promise reaction is an action
  of its own, run whenever the event loop gets to it. Tracing and logging are left out
  except where an effect records them.
\<close>

datatype Action =
    Execute string string
  | ExecuteAsync string string
  | ExecuteWithoutWaitingForResponse string string
  | TokenCancelled nat
  | MessageRead Message
  | ServiceFulfilled Request
  | ServiceRejected Request any
  | EnsureServiceStarted
  | RestartTsServer
  | RestartKill
  | RestartStart
  | Forked bool
  | ForkFailed any
  | StartRejected any
  | ProcessError any
  | ProcessExit "int option"
  | ClockSet int
  | VersionPicked "API option"

fun step :: "Client \<Rightarrow> Action \<Rightarrow> Client" where
  "step s (Execute cmd args) = execute s cmd args"
| "step s (ExecuteAsync cmd args) = executeAsync s cmd args"
| "step s (ExecuteWithoutWaitingForResponse cmd args) = executeWithoutWaitingForResponse s cmd args"
| "step s (TokenCancelled sq) = snd (tryCancelRequest s sq)"
| "step s (MessageRead msg) = reader_deliver s msg"
| "step s (ServiceFulfilled req) = sendRequest_write s req"
| "step s (ServiceRejected req err) = sendRequest_failed s req err"
| "step s EnsureServiceStarted = ensureServiceStarted s"
| "step s RestartTsServer = restartTsServer s"
| "step s RestartKill = restartTsServer_kill s"
| "step s RestartStart = startService s"
| "step s (Forked resendModels) = onForked s resendModels"
| "step s (ForkFailed err) = onForkFailed s err"
| "step s (StartRejected err) = onStartRejected s err"
| "step s (ProcessError err) = onError s err"
| "step s (ProcessExit code) = onExit s code"
| "step s (ClockSet t) = s\<lparr>now := t\<rparr>"
| "step s (VersionPicked v) = s\<lparr>versionPicker_currentVersion := v\<rparr>"

definition run :: "Client \<Rightarrow> Action list \<Rightarrow> Client" where
  "run s acts = foldl step s acts"

section \<open>Notions used to state the properties\<close>

text \<open>The calls of callbacks among the effects.\<close>

fun is_call :: "effect \<Rightarrow> bool" where
  "is_call (Call f v) = True"
| "is_call other = False"

definition calls :: "Client \<Rightarrow> effect list" where
  "calls s = filter is_call (effects s)"

text \<open>Requests created one after the other on the same queue.\<close>

fun createRequests :: "RequestQueue \<Rightarrow> (string \<times> string) list \<Rightarrow> Request list \<times> RequestQueue" where
  "createRequests q [] = ([], q)"
| "createRequests q ((cmd, args) # rest) =
     (let (r, q') = createRequest q cmd args;
          (rs, q'') = createRequests q' rest
      in (r # rs, q''))"

text \<open>
  The restart policy in the words of the specification: the restart counter is
  incremented per crash; once it exceeds 5 it is reset and the time since the last
  session start is examined: under 10 seconds, no restart and a fatal notice; under 60
  seconds, a restart and a warning; otherwise a silent restart. The result is the new
  counter, whether the worker is restarted, and the notice.
\<close>

datatype Notice = FatalNotice | WarningNotice | NoNotice

definition restart_policy :: "nat \<Rightarrow> int \<Rightarrow> nat \<times> bool \<times> Notice" where
  "restart_policy restarts elapsed =
     (if restarts + 1 > 5
      then (0, if elapsed < 10000 then (False, FatalNotice)
               else if elapsed < 60000 then (True, WarningNotice)
               else (True, NoNotice))
      else (restarts + 1, True, NoNotice))"

fun notice_effects :: "Notice \<Rightarrow> effect list" where
  "notice_effects FatalNotice =
     [ShowErrorMessage ''serverDiedAfterStart'', LogTelemetry ''serviceExited'']"
| "notice_effects WarningNotice = [ShowWarningMessage ''serverDied'']"
| "notice_effects NoNotice = []"

text \<open>
  One session that ends in a crash: the fork succeeds at time \<open>started\<close>, the process
  exits unexpectedly at time \<open>exited\<close> with the given exit code.
\<close>

fun crash_cycle :: "Client \<Rightarrow> int \<times> int \<times> int option \<Rightarrow> Client" where
  "crash_cycle s (started, exited, code) =
     onExit ((onForked (s\<lparr>now := started\<rparr>) True)\<lparr>now := exited\<rparr>) code"

definition crash_cycles :: "Client \<Rightarrow> (int \<times> int \<times> int option) list \<Rightarrow> Client" where
  "crash_cycles s cycles = foldl crash_cycle s cycles"

text \<open>The gate counter agrees with the synchronous map, which holds at most one entry.\<close>

definition gate_ok :: "CallbackMap \<Rightarrow> bool" where
  "gate_ok t = (pendingResponses t = int (length (callbacks t)) \<and> length (callbacks t) \<le> 1)"

text \<open>The client after \<^verbatim>\<open>shift\<close> has taken the first entry off the queue.\<close>

definition dequeue :: "Client \<Rightarrow> Client" where
  "dequeue s = s\<lparr>requestQueue := (requestQueue s)\<lparr>queue := tl (queue (requestQueue s))\<rparr>\<rparr>"

text \<open>
  Example states. The picked version 2.0.0 is below 2.2.2, so there is no cancellation
  pipe. \<open>sent_example\<close>: the service is starting and one synchronous request has been
  sent. \<open>gate_example\<close>: an asynchronous request was issued after it.
  \<open>queued_example\<close>: a second synchronous request was issued after it.
  \<open>lazy_example\<close>: the first request is issued without a service having been started.
\<close>

definition client0 :: Client where
  "client0 = new_Client 0 (API 1 0 0) (Some (API 2 0 0)) ''/tmp/tscancellation''"

definition started0 :: Client where
  "started0 = ensureServiceStarted client0"

definition sent_example :: Client where
  "sent_example = execute started0 ''quickinfo'' ''a''"

definition gate_example :: Client where
  "gate_example = executeAsync sent_example ''geterr'' ''b''"

definition queued_example :: Client where
  "queued_example = execute sent_example ''completions'' ''b''"

definition lazy_example :: Client where
  "lazy_example = execute client0 ''quickinfo'' ''a''"

definition table_example :: CallbackMap where
  "table_example =
     add (add new_CallbackMap 0 \<lparr>c = ResolveFn 0, e = RejectFn 0, start = 0\<rparr> False)
         1 \<lparr>c = ResolveFn 1, e = RejectFn 1, start = 0\<rparr> True"

text \<open>The notices shown to the user, among the effects.\<close>

fun is_notice :: "effect \<Rightarrow> bool" where
  "is_notice (ShowErrorMessage m) = True"
| "is_notice (ShowWarningMessage m) = True"
| "is_notice other = False"

definition notices :: "Client \<Rightarrow> effect list" where
  "notices s = filter is_notice (effects s)"

text \<open>The fields of the restart accounting, which sending requests leaves alone.\<close>

definition accounting :: "Client \<Rightarrow> nat \<times> bool \<times> int \<times> int \<times> effect list" where
  "accounting s = (numberRestarts s, isRestarting s, lastStart s, now s, notices s)"

text \<open>
  The callbacks the client still holds, in the table or in the queue, and what it
  means that the client has lost the promise numbered \<open>p\<close>: the promise has been
  allocated, the client holds no callback of it, and none was called.
\<close>

fun fn_promise :: "fn \<Rightarrow> nat" where
  "fn_promise (ResolveFn p) = p"
| "fn_promise (RejectFn p) = p"

definition held_callbacks :: "Client \<Rightarrow> CallbackItem set" where
  "held_callbacks s =
     snd ` set (callbacks (client_callbacks s))
     \<union> snd ` set (asyncCallbacks (client_callbacks s))
     \<union> {cb. \<exists>item \<in> set (queue (requestQueue s)). item_callbacks item = Some cb}"

definition called_promises :: "effect list \<Rightarrow> nat set" where
  "called_promises es = {p. \<exists>f v. Call f v \<in> set es \<and> fn_promise f = p}"

definition lost :: "nat \<Rightarrow> Client \<Rightarrow> bool" where
  "lost p s =
     (p < promises s
      \<and> (\<forall>cb \<in> held_callbacks s. fn_promise (c cb) \<noteq> p \<and> fn_promise (e cb) \<noteq> p)
      \<and> p \<notin> called_promises (effects s))"

text \<open>
  Sequence numbers are handed out once: the queued requests carry distinct numbers
  below the counter, the registered ones are below the counter and not queued, and no
  number is registered in both maps.
\<close>

definition queued_seqs :: "Client \<Rightarrow> nat list" where
  "queued_seqs s = map (\<lambda>item. seq (request item)) (queue (requestQueue s))"

definition sync_keys :: "Client \<Rightarrow> nat set" where
  "sync_keys s = fst ` set (callbacks (client_callbacks s))"

definition async_keys :: "Client \<Rightarrow> nat set" where
  "async_keys s = fst ` set (asyncCallbacks (client_callbacks s))"

definition numbered :: "Client \<Rightarrow> bool" where
  "numbered s =
     (distinct (queued_seqs s)
      \<and> (\<forall>k \<in> set (queued_seqs s). k < sequenceNumber (requestQueue s))
      \<and> (\<forall>k \<in> sync_keys s \<union> async_keys s.
            k < sequenceNumber (requestQueue s) \<and> k \<notin> set (queued_seqs s))
      \<and> sync_keys s \<inter> async_keys s = {})"

text \<open>
  What one run of the drain loop hands to \<^verbatim>\<open>sendRequest\<close>. An entry holds the gate
  when it is synchronous and has a callback. With the gate closed nothing is taken;
  when there is neither a service promise nor a recorded error the first entry starts
  the service, which installs an empty queue; otherwise the entries are taken in order
  up to and including the first that holds the gate.
\<close>

definition holds_gate :: "RequestItem \<Rightarrow> bool" where
  "holds_gate item = (item_callbacks item \<noteq> None \<and> \<not> isAsync item)"

fun upto_gate :: "RequestItem list \<Rightarrow> RequestItem list" where
  "upto_gate [] = []"
| "upto_gate (item # rest) = (if holds_gate item then [item] else item # upto_gate rest)"

definition drained :: "Client \<Rightarrow> RequestItem list" where
  "drained s =
     (if pendingResponses (client_callbacks s) \<noteq> 0 then []
      else if servicePromise s = None \<and> lastError s = None then take 1 (queue (requestQueue s))
      else upto_gate (queue (requestQueue s)))"

text \<open>
  Two runs from the construction of the client. \<open>pipelined_example\<close>: the service is
  started and forked, its \<^verbatim>\<open>configure\<close> request is written, a synchronous request is
  issued and written, its token fires, a second synchronous request is issued and
  written; no message is read from the worker. \<open>duplicate_example\<close>: two synchronous
  requests are issued before any service was started, the fork succeeds, and the two
  write reactions run.
\<close>

definition pipelined_example :: Client where
  "pipelined_example =
     run client0
       [EnsureServiceStarted,
        Forked False,
        ServiceFulfilled \<lparr>seq = 0, command = ''configure'', arguments = ''hostInfo''\<rparr>,
        Execute ''quickinfo'' ''a'',
        ServiceFulfilled \<lparr>seq = 1, command = ''quickinfo'', arguments = ''a''\<rparr>,
        TokenCancelled 1,
        Execute ''completions'' ''b'',
        ServiceFulfilled \<lparr>seq = 2, command = ''completions'', arguments = ''b''\<rparr>]"

definition duplicate_example :: Client where
  "duplicate_example =
     run client0
       [Execute ''quickinfo'' ''a'',
        Execute ''completions'' ''b'',
        Forked False,
        ServiceFulfilled \<lparr>seq = 0, command = ''quickinfo'', arguments = ''a''\<rparr>,
        ServiceFulfilled \<lparr>seq = 0, command = ''completions'', arguments = ''b''\<rparr>]"

section \<open>Lemmas\<close>

subsection \<open>The correlation table\<close>

lemma delete_absent: "map_of xs k = None \<Longrightarrow> AList.delete k xs = xs"
  by (induction xs) (auto simp: AList.delete_eq split: if_splits)

lemma map_of_delete_same: "map_of (AList.delete k xs) k = None"
  by (simp add: AList.delete_eq map_of_eq_None_iff image_iff)

lemma destroy_calls_each_once:
  "fst (destroy t err) = map (\<lambda>cb. Call (e cb) err) (map snd (callbacks t @ asyncCallbacks t))
   \<and> callbacks (snd (destroy t err)) = []
   \<and> pendingResponses (snd (destroy t err)) = 0
   \<and> asyncCallbacks (snd (destroy t err)) = asyncCallbacks t"
  by (simp add: destroy_def)

lemma fetch_absent:
  "fst (fetch t sq) = None \<Longrightarrow> snd (fetch t sq) = t"
  by (auto simp: fetch_def delete_def Let_def delete_absent split: option.splits)

subsection \<open>The request queue\<close>

lemma createRequests_seqs:
  "map seq (fst (createRequests q cs)) = [sequenceNumber q ..< sequenceNumber q + length cs]"
proof (induction cs arbitrary: q)
  case Nil
  then show ?case by simp
next
  case (Cons a cs)
  obtain cmd args where a: "a = (cmd, args)" by (cases a)
  have "map seq (fst (createRequests (snd (createRequest q cmd args)) cs))
          = [Suc (sequenceNumber q) ..< Suc (sequenceNumber q) + length cs]"
    using Cons.IH [of "snd (createRequest q cmd args)"] by (simp add: createRequest_def)
  moreover have "seq (fst (createRequest q cmd args)) = sequenceNumber q"
    by (simp add: createRequest_def)
  moreover have "[sequenceNumber q ..< sequenceNumber q + length (a # cs)]
                   = sequenceNumber q # [Suc (sequenceNumber q) ..< Suc (sequenceNumber q) + length cs]"
    using upt_conv_Cons [of "sequenceNumber q" "sequenceNumber q + length (a # cs)"] by simp
  ultimately show ?case
    by (simp only: a createRequests.simps split_beta Let_def fst_conv list.map)
qed

lemma cancel_scan_absent:
  "\<forall>item \<in> set items. seq (request item) \<noteq> sq \<Longrightarrow> cancel_scan items sq = (False, items)"
  by (induction items) auto

lemma cancel_scan_present:
  "seq (request item) = sq \<Longrightarrow> \<forall>i \<in> set before. seq (request i) \<noteq> sq \<Longrightarrow>
   cancel_scan (before @ item # after) sq = (True, before @ after)"
  by (induction before) auto

lemma shift_nonempty:
  "queue q \<noteq> [] \<Longrightarrow> shift q = (Some (hd (queue q)), q\<lparr>queue := tl (queue q)\<rparr>)"
  by (cases "queue q") (auto simp: shift_def)

subsection \<open>The drain loop\<close>

lemma sendNextRequests_closed:
  "pendingResponses (client_callbacks s) \<noteq> 0 \<or> queue (requestQueue s) = [] \<Longrightarrow>
   sendNextRequests s = s"
  by (auto simp: sendNextRequests.simps queue_length_def)

lemma sendNextRequests_open:
  "pendingResponses (client_callbacks s) = 0 \<Longrightarrow> queue (requestQueue s) \<noteq> [] \<Longrightarrow>
   sendNextRequests s =
     sendNextRequests (sendRequest (dequeue s) (hd (queue (requestQueue s))))"
  by (subst sendNextRequests.simps) (simp add: queue_length_def shift_nonempty dequeue_def)

lemma sendNextRequests_preserves:
  assumes "P s"
    and step: "\<And>s. P s \<Longrightarrow> pendingResponses (client_callbacks s) = 0 \<Longrightarrow>
                 queue (requestQueue s) \<noteq> [] \<Longrightarrow>
                 P (sendRequest (dequeue s) (hd (queue (requestQueue s))))"
  shows "P (sendNextRequests s)"
  using assms(1)
proof (induction s rule: sendNextRequests.induct)
  case (1 s)
  show ?case
  proof (cases "pendingResponses (client_callbacks s) = 0 \<and> queue (requestQueue s) \<noteq> []")
    case False
    then have "sendNextRequests s = s" using sendNextRequests_closed by blast
    then show ?thesis using 1 by simp
  next
    case True
    let ?q = "(requestQueue s)\<lparr>queue := tl (queue (requestQueue s))\<rparr>"
    let ?i = "hd (queue (requestQueue s))"
    have sh: "shift (requestQueue s) = (Some ?i, ?q)" using True shift_nonempty by blast
    have "P (sendRequest (s\<lparr>requestQueue := ?q\<rparr>) ?i)"
      using step [OF "1.prems"] True by (simp add: dequeue_def)
    moreover have "pendingResponses (client_callbacks s) = 0 \<and> 0 < queue_length (requestQueue s)"
      using True by (simp add: queue_length_def)
    ultimately have "P (sendNextRequests (sendRequest (s\<lparr>requestQueue := ?q\<rparr>) ?i))"
      using "1.IH" [OF _ sh [symmetric] refl] by blast
    then show ?thesis using sendNextRequests_open True by (simp add: dequeue_def)
  qed
qed

subsection \<open>The gate invariant\<close>

lemma gate_ok_new [simp]: "gate_ok new_CallbackMap"
  by (simp add: gate_ok_def new_CallbackMap_def)

lemma gate_ok_add_async: "gate_ok t \<Longrightarrow> gate_ok (add t sq cb True)"
  by (simp add: gate_ok_def add_def)

lemma gate_ok_add_sync: "gate_ok t \<Longrightarrow> pendingResponses t = 0 \<Longrightarrow> gate_ok (add t sq cb False)"
  by (simp add: gate_ok_def add_def)

lemma gate_ok_delete: "gate_ok t \<Longrightarrow> gate_ok (delete t sq)"
  by (cases "callbacks t") (auto simp: gate_ok_def delete_def AList.delete_eq)

lemma gate_ok_fetch: "gate_ok t \<Longrightarrow> gate_ok (snd (fetch t sq))"
  by (simp add: fetch_def Let_def gate_ok_delete)

lemma gate_ok_startService [simp]: "gate_ok (client_callbacks (startService s))"
  by (simp add: startService_def Let_def)

lemma gate_ok_service:
  "gate_ok (client_callbacks s) \<Longrightarrow> gate_ok (client_callbacks (snd (service s)))"
  by (auto simp: service_def Let_def split: option.splits)

lemma gate_ok_sendRequest:
  "gate_ok (client_callbacks s) \<Longrightarrow> pendingResponses (client_callbacks s) = 0 \<Longrightarrow>
   gate_ok (client_callbacks (sendRequest s item))"
  by (cases "isAsync item")
     (auto simp: sendRequest_def Let_def emit_def gate_ok_add_async gate_ok_add_sync
           intro!: gate_ok_service split: option.splits)

lemma gate_ok_sendNextRequests:
  "gate_ok (client_callbacks s) \<Longrightarrow> gate_ok (client_callbacks (sendNextRequests s))"
  by (rule sendNextRequests_preserves [where P = "\<lambda>s. gate_ok (client_callbacks s)"])
     (auto simp: gate_ok_sendRequest dequeue_def)

lemma gate_ok_executeImpl:
  "gate_ok (client_callbacks s) \<Longrightarrow> gate_ok (client_callbacks (executeImpl s cmd args a r))"
  by (auto simp: executeImpl_def Let_def split_beta intro!: gate_ok_sendNextRequests)

lemma gate_ok_tryCancelRequest:
  assumes "gate_ok (client_callbacks s)"
  shows "gate_ok (client_callbacks (snd (tryCancelRequest s sq)))"
  using gate_ok_fetch [OF assms, of sq]
  by (cases "fetch (client_callbacks s) sq")
     (auto simp: tryCancelRequest_def Let_def split_beta emit_def split: option.splits)

lemma gate_ok_dispatchEvent:
  "gate_ok (client_callbacks s) \<Longrightarrow> gate_ok (client_callbacks (snd (dispatchEvent s ev)))"
  using gate_ok_fetch [of "client_callbacks s"]
  by (auto simp: dispatchEvent_def emit_def split: option.splits EventBody.splits prod.splits)
     (metis snd_conv)+

lemma gate_ok_dispatchMessage:
  assumes g: "gate_ok (client_callbacks s)"
  shows "gate_ok (client_callbacks (snd (dispatchMessage s msg)))"
proof (cases msg)
  case (ResponseMsg r)
  show ?thesis
    using gate_ok_fetch [OF g, of "request_seq r"]
    by (cases "fetch (client_callbacks s) (request_seq r)")
       (auto simp: ResponseMsg dispatchMessage_def emit_def
             intro!: gate_ok_sendNextRequests split: option.splits)
next
  case (EventMsg ev)
  show ?thesis
    using gate_ok_dispatchEvent [OF g, of ev]
    by (cases "dispatchEvent s ev")
       (auto simp: EventMsg dispatchMessage_def intro!: gate_ok_sendNextRequests)
next
  case (OtherMsg ty)
  from g show ?thesis
    by (auto simp: OtherMsg dispatchMessage_def intro!: gate_ok_sendNextRequests)
qed

lemma gate_ok_reader_deliver:
  "gate_ok (client_callbacks s) \<Longrightarrow> gate_ok (client_callbacks (reader_deliver s msg))"
  using gate_ok_dispatchMessage [of s msg]
  by (cases "dispatchMessage s msg") (auto simp: reader_deliver_def emit_def split: option.splits)

lemma gate_ok_sendRequest_failed:
  "gate_ok (client_callbacks s) \<Longrightarrow> gate_ok (client_callbacks (sendRequest_failed s req err))"
  using gate_ok_fetch [of "client_callbacks s" "seq req"]
  by (cases "fetch (client_callbacks s) (seq req)")
     (auto simp: sendRequest_failed_def emit_def split: option.splits)

lemma gate_ok_serviceExited [simp]: "gate_ok (client_callbacks (serviceExited s restart))"
  by (simp add: serviceExited_def Let_def split_beta resetClientVersion_def emit_def)

lemma gate_ok_onForked:
  "gate_ok (client_callbacks s) \<Longrightarrow> gate_ok (client_callbacks (onForked s r))"
  by (auto simp: onForked_def serviceStarted_def setCompilerOptionsForInferredProjects_def
        executeWithoutWaitingForResponse_def settle_def emit_def Let_def
        intro!: gate_ok_executeImpl split: option.splits Thenable.splits)

lemma gate_ok_step:
  assumes g: "gate_ok (client_callbacks s)"
  shows "gate_ok (client_callbacks (step s a))"
proof (cases a)
  case (TokenCancelled sq)
  then show ?thesis using gate_ok_tryCancelRequest [OF g] by simp
next
  case (MessageRead m)
  then show ?thesis using gate_ok_reader_deliver [OF g] by simp
next
  case (Forked r)
  then show ?thesis using gate_ok_onForked [OF g] by simp
qed (use g in \<open>auto simp: execute_def executeAsync_def executeWithoutWaitingForResponse_def
       gate_ok_executeImpl sendRequest_write_def emit_def gate_ok_sendRequest_failed
       ensureServiceStarted_def restartTsServer_def restartTsServer_kill_def
       resetClientVersion_def onForkFailed_def onStartRejected_def settle_def onError_def
       onExit_def Let_def split: option.splits Thenable.splits\<close>)

lemma gate_ok_run: "gate_ok (client_callbacks s) \<Longrightarrow> gate_ok (client_callbacks (run s acts))"
  unfolding run_def by (induction acts arbitrary: s) (auto simp: gate_ok_step)

lemma gate_ok_new_Client [simp]: "gate_ok (client_callbacks (new_Client t dv pv tf))"
  by (simp add: new_Client_def)

subsection \<open>The drain loop calls no callback\<close>

lemma calls_service: "calls (snd (service s)) = calls s"
  by (auto simp: service_def startService_def calls_def Let_def split: option.splits)

lemma calls_sendRequest: "calls (sendRequest s item) = calls s"
proof -
  have "calls (snd (service s')) = calls s" if "calls s' = calls s" for s'
    using that calls_service by simp
  then show ?thesis
    by (simp add: sendRequest_def Let_def emit_def calls_def split: option.splits)
qed

lemma calls_sendNextRequests: "calls (sendNextRequests s) = calls s"
proof (rule sendNextRequests_preserves [where P = "\<lambda>s'. calls s' = calls s"])
  show "calls s = calls s" by simp
next
  fix s' assume "calls s' = calls s"
  then have "calls (dequeue s') = calls s" by (simp add: calls_def dequeue_def)
  then show "calls (sendRequest (dequeue s') (hd (queue (requestQueue s')))) = calls s"
    by (simp add: calls_sendRequest)
qed

section \<open>A promise the client has lost is never settled\<close>

lemma set_update_subset: "set (AList.update k v xs) \<subseteq> insert (k, v) (set xs)"
  by (induction xs) auto

lemma set_delete_subset: "set (AList.delete k xs) \<subseteq> set xs"
  by (auto simp: AList.delete_eq)

lemma held_fetch:
  "fst (fetch (client_callbacks s) sq) = Some cb \<Longrightarrow> cb \<in> held_callbacks s"
  by (auto simp: fetch_def Let_def held_callbacks_def split: option.splits
           dest!: map_of_SomeD intro: rev_image_eqI)

lemma held_after_fetch:
  "client_callbacks s' = snd (fetch (client_callbacks s) sq) \<Longrightarrow>
   requestQueue s' = requestQueue s \<Longrightarrow> held_callbacks s' \<subseteq> held_callbacks s"
  using set_delete_subset [of sq "callbacks (client_callbacks s)"]
    set_delete_subset [of sq "asyncCallbacks (client_callbacks s)"]
  by (auto simp: fetch_def Let_def delete_def held_callbacks_def)

lemma called_append [simp]:
  "called_promises (xs @ ys) = called_promises xs \<union> called_promises ys"
  by (auto simp: called_promises_def)

lemma called_Nil [simp]: "called_promises [] = {}"
  by (simp add: called_promises_def)

lemma called_Call [simp]: "called_promises [Call f v] = {fn_promise f}"
  by (auto simp: called_promises_def)

lemma called_other [simp]: "\<not> is_call x \<Longrightarrow> called_promises [x] = {}"
  by (cases x) (auto simp: called_promises_def)

lemma called_Cons_other [simp]: "\<not> is_call x \<Longrightarrow> called_promises (x # xs) = called_promises xs"
  by (cases x) (auto simp: called_promises_def)

text \<open>A step that allocates no promise of number \<open>p\<close>, holds only callbacks held before, and calls only callbacks held before.\<close>

lemma lost_step:
  assumes "lost p s"
    and "promises s \<le> promises s'"
    and "held_callbacks s' \<subseteq> held_callbacks s"
    and "called_promises (effects s') \<subseteq> called_promises (effects s)
           \<union> (\<lambda>cb. fn_promise (e cb)) ` held_callbacks s
           \<union> (\<lambda>cb. fn_promise (c cb)) ` held_callbacks s"
  shows "lost p s'"
  using assms unfolding lost_def by (auto; blast)

lemma held_startService [simp]: "held_callbacks (startService s) = {}"
  by (simp add: held_callbacks_def startService_def Let_def new_CallbackMap_def new_RequestQueue_def)

lemma promises_startService [simp]: "promises (startService s) = promises s"
  by (simp add: startService_def Let_def)

lemma effects_startService [simp]: "effects (startService s) = effects s"
  by (simp add: startService_def Let_def)

lemma lost_startService: "lost p s \<Longrightarrow> lost p (startService s)"
  by (rule lost_step) auto

lemma lost_service: "lost p s \<Longrightarrow> lost p (snd (service s))"
  by (auto simp: service_def Let_def lost_startService split: option.splits)

lemma held_add:
  "held_callbacks (s\<lparr>client_callbacks := add (client_callbacks s) sq cb a\<rparr>)
     \<subseteq> insert cb (held_callbacks s)"
  using set_update_subset [of sq cb "callbacks (client_callbacks s)"]
    set_update_subset [of sq cb "asyncCallbacks (client_callbacks s)"]
  by (auto simp: held_callbacks_def add_def)

lemma lost_sendRequest:
  assumes "lost p s" "queue (requestQueue s) \<noteq> []"
  shows "lost p (sendRequest (dequeue s) (hd (queue (requestQueue s))))"
proof -
  let ?item = "hd (queue (requestQueue s))"
  let ?s1 = "emit [TraceRequest (request ?item)] (dequeue s)"
  let ?s2 = "case item_callbacks ?item of
               Some cbs \<Rightarrow> ?s1\<lparr>client_callbacks :=
                   add (client_callbacks ?s1) (seq (request ?item)) cbs (isAsync ?item)\<rparr>
             | None \<Rightarrow> ?s1"
  have item: "?item \<in> set (queue (requestQueue s))" using assms(2) by simp
  have h1: "held_callbacks ?s1 \<subseteq> held_callbacks s"
    using assms(2) by (auto simp: held_callbacks_def emit_def dequeue_def dest: list.set_sel(2))
  have h2: "held_callbacks ?s2 \<subseteq> held_callbacks s"
  proof (cases "item_callbacks ?item")
    case None
    then show ?thesis using h1 by simp
  next
    case (Some cbs)
    then have "cbs \<in> held_callbacks s" using item by (auto simp: held_callbacks_def)
    then show ?thesis
      using held_add [of ?s1 "seq (request ?item)" cbs "isAsync ?item"] h1 Some by auto
  qed
  have "lost p ?s2"
  proof (rule lost_step [OF assms(1)])
    show "promises s \<le> promises ?s2"
      by (simp add: emit_def dequeue_def split: option.splits)
    show "held_callbacks ?s2 \<subseteq> held_callbacks s" by (rule h2)
    show "called_promises (effects ?s2) \<subseteq> called_promises (effects s)
           \<union> (\<lambda>cb. fn_promise (e cb)) ` held_callbacks s
           \<union> (\<lambda>cb. fn_promise (c cb)) ` held_callbacks s"
      by (auto simp: emit_def dequeue_def split: option.splits)
  qed
  then have "lost p (snd (service ?s2))" by (rule lost_service)
  then show ?thesis by (simp add: sendRequest_def Let_def)
qed

lemma lost_sendNextRequests: "lost p s \<Longrightarrow> lost p (sendNextRequests s)"
  by (rule sendNextRequests_preserves [where P = "lost p"]) (auto intro: lost_sendRequest)

lemma lost_executeImpl:
  assumes "lost p s"
  shows "lost p (executeImpl s cmd args a r)"
  unfolding executeImpl_def createRequest_def Let_def split_beta fst_conv snd_conv
  by (rule lost_sendNextRequests) (use assms in \<open>auto simp: lost_def held_callbacks_def push_def\<close>)


text \<open>Fetching a callback and calling one of its two functions.\<close>

lemma lost_frame:
  "lost p s \<Longrightarrow> requestQueue s' = requestQueue s \<Longrightarrow> client_callbacks s' = client_callbacks s \<Longrightarrow>
   promises s' = promises s \<Longrightarrow> called_promises (effects s') = called_promises (effects s) \<Longrightarrow>
   lost p s'"
  by (auto simp: lost_def held_callbacks_def)

lemma lost_fetched_none:
  assumes "lost p s" and f: "fetch (client_callbacks s) sq = (r, t)"
  shows "lost p (s\<lparr>client_callbacks := t\<rparr>)"
proof (rule lost_step [OF assms(1)])
  show "held_callbacks (s\<lparr>client_callbacks := t\<rparr>) \<subseteq> held_callbacks s"
    by (rule held_after_fetch [where sq = sq]) (simp_all add: f)
qed auto

lemma lost_fetched_some:
  assumes "lost p s" and f: "fetch (client_callbacks s) sq = (Some cb, t)"
    and g: "f = c cb \<or> f = e cb"
  shows "lost p (emit [Call f v] (s\<lparr>client_callbacks := t\<rparr>))"
proof (rule lost_step [OF assms(1)])
  have cb: "cb \<in> held_callbacks s" using f held_fetch [of s sq cb] by simp
  have "held_callbacks (s\<lparr>client_callbacks := t\<rparr>) \<subseteq> held_callbacks s"
    by (rule held_after_fetch [where sq = sq]) (simp_all add: f)
  then show "held_callbacks (emit [Call f v] (s\<lparr>client_callbacks := t\<rparr>)) \<subseteq> held_callbacks s"
    by (simp add: emit_def held_callbacks_def)
  show "called_promises (effects (emit [Call f v] (s\<lparr>client_callbacks := t\<rparr>)))
          \<subseteq> called_promises (effects s)
           \<union> (\<lambda>cb. fn_promise (e cb)) ` held_callbacks s
           \<union> (\<lambda>cb. fn_promise (c cb)) ` held_callbacks s"
    using cb g by (auto simp: emit_def)
qed (simp add: emit_def)

lemma lost_sendRequest_failed: "lost p s \<Longrightarrow> lost p (sendRequest_failed s req err)"
  by (cases "fetch (client_callbacks s) (seq req)")
     (auto simp: sendRequest_failed_def split: option.splits
           intro: lost_fetched_none lost_fetched_some)

lemma lost_cancel_queue:
  assumes "lost p s"
  shows "lost p (s\<lparr>requestQueue := snd (tryCancelPendingRequest (requestQueue s) sq)\<rparr>)"
proof -
  have "set (snd (cancel_scan items sq)) \<subseteq> set items" for items
    by (induction items) (auto split: prod.splits)
  then have "set (queue (snd (tryCancelPendingRequest (requestQueue s) sq)))
               \<subseteq> set (queue (requestQueue s))"
    by (simp add: tryCancelPendingRequest_def split_beta)
  then show ?thesis
    using assms by (auto simp: lost_def held_callbacks_def)
qed

lemma lost_emit_other: "lost p s \<Longrightarrow> \<not> is_call x \<Longrightarrow> lost p (emit [x] s)"
  by (rule lost_frame [of p s]) (auto simp: emit_def)

lemma lost_tryCancelRequest:
  assumes "lost p s"
  shows "lost p (snd (tryCancelRequest s sq))"
proof -
  let ?s1 = "s\<lparr>requestQueue := snd (tryCancelPendingRequest (requestQueue s) sq)\<rparr>"
  have l1: "lost p ?s1" using assms by (rule lost_cancel_queue)
  have l2: "lost p (emit [WriteFileSync w] ?s1)" for w
    using l1 by (rule lost_emit_other) simp
  show ?thesis
  proof (cases "fetch (client_callbacks s) sq")
    case (Pair r t)
    then have f1: "fetch (client_callbacks ?s1) sq = (r, t)"
      and f2: "fetch (client_callbacks (emit [WriteFileSync w] ?s1)) sq = (r, t)" for w
      by (simp_all add: emit_def)
    have n1: "lost p (?s1\<lparr>client_callbacks := t\<rparr>)"
      using lost_fetched_none [OF l1 f1] .
    have n2: "lost p ((emit [WriteFileSync w] ?s1)\<lparr>client_callbacks := t\<rparr>)" for w
      using lost_fetched_none [OF l2 f2] .
    have s1: "lost p (emit [Call (e cb) v] (?s1\<lparr>client_callbacks := t\<rparr>))" if "r = Some cb" for cb v
      using lost_fetched_some [OF l1, of sq cb t "e cb" v] f1 that by simp
    have s2: "lost p (emit [Call (e cb) v] ((emit [WriteFileSync w] ?s1)\<lparr>client_callbacks := t\<rparr>))"
      if "r = Some cb" for cb v w
      using lost_fetched_some [OF l2, of w sq cb t "e cb" v] f2 that by simp
    show ?thesis
      using n1 n2 s1 s2 f1 f2 Pair
      by (cases r) (auto simp: tryCancelRequest_def Let_def split_beta emit_def split: option.splits)
  qed
qed


lemma lost_dispatchEvent: "lost p s \<Longrightarrow> lost p (snd (dispatchEvent s ev))"
  by (auto simp: dispatchEvent_def split: option.splits EventBody.splits prod.splits
           intro: lost_fetched_none lost_fetched_some lost_emit_other)

lemma lost_dispatchMessage:
  assumes "lost p s"
  shows "lost p (snd (dispatchMessage s msg))"
proof (cases msg)
  case (ResponseMsg r)
  show ?thesis
    using assms
    by (cases "fetch (client_callbacks s) (request_seq r)")
       (auto simp: ResponseMsg dispatchMessage_def split: option.splits
             intro!: lost_sendNextRequests intro: lost_fetched_none lost_fetched_some)
next
  case (EventMsg ev)
  show ?thesis
    using lost_dispatchEvent [OF assms, of ev]
    by (cases "dispatchEvent s ev") (auto simp: EventMsg dispatchMessage_def intro!: lost_sendNextRequests)
next
  case (OtherMsg ty)
  show ?thesis
    using assms by (auto simp: OtherMsg dispatchMessage_def intro!: lost_sendNextRequests)
qed

lemma lost_reader_deliver: "lost p s \<Longrightarrow> lost p (reader_deliver s msg)"
  using lost_dispatchMessage [of p s msg]
  by (cases "dispatchMessage s msg")
     (auto simp: reader_deliver_def split: option.splits intro: lost_emit_other)

lemma called_destroy:
  "called_promises (fst (destroy (client_callbacks s) err))
     \<subseteq> (\<lambda>cb. fn_promise (e cb)) ` held_callbacks s"
  by (auto simp: destroy_def called_promises_def held_callbacks_def)

lemma lost_resetClientVersion: "lost p s \<Longrightarrow> lost p (resetClientVersion s)"
  by (rule lost_frame [of p s]) (auto simp: resetClientVersion_def)

lemma lost_destroyed:
  assumes "lost p s"
  shows "lost p ((emit (fst (destroy (client_callbacks s) err))
                   (s\<lparr>servicePromise := None, tsServerLogFile := None\<rparr>))
                 \<lparr>client_callbacks := new_CallbackMap\<rparr>)"
proof (rule lost_step [OF assms])
  let ?r = "(emit (fst (destroy (client_callbacks s) err))
                   (s\<lparr>servicePromise := None, tsServerLogFile := None\<rparr>))
                 \<lparr>client_callbacks := new_CallbackMap\<rparr>"
  show "promises s \<le> promises ?r" by (simp add: emit_def)
  show "held_callbacks ?r \<subseteq> held_callbacks s"
    by (auto simp: held_callbacks_def emit_def new_CallbackMap_def)
  show "called_promises (effects ?r) \<subseteq> called_promises (effects s)
           \<union> (\<lambda>cb. fn_promise (e cb)) ` held_callbacks s
           \<union> (\<lambda>cb. fn_promise (c cb)) ` held_callbacks s"
    using called_destroy [of s err] by (auto simp: emit_def)
qed

lemma lost_emit_others: "lost p s \<Longrightarrow> \<forall>x \<in> set xs. \<not> is_call x \<Longrightarrow> lost p (emit xs s)"
proof (rule lost_frame [of p s])
  assume "\<forall>x \<in> set xs. \<not> is_call x"
  then have "called_promises xs = {}"
    by (induction xs) auto
  then show "called_promises (effects (emit xs s)) = called_promises (effects s)"
    by (simp add: emit_def)
qed (auto simp: emit_def)

lemma lost_serviceExited:
  assumes "lost p s"
  shows "lost p (serviceExited s restart)"
proof -
  note d = lost_destroyed [OF assms, of "ErrorObj ''Service died.''"]
  have f: "lost p (s'\<lparr>numberRestarts := n\<rparr>)" "lost p (s'\<lparr>lastStart := l\<rparr>)" if "lost p s'" for s' n l
    using that by (auto intro: lost_frame [of p s'])
  show ?thesis
    unfolding serviceExited_def Let_def split_beta
    using d
    by (auto intro!: lost_resetClientVersion lost_startService lost_emit_others f)
qed

lemma lost_onForked: "lost p s \<Longrightarrow> lost p (onForked s r)"
proof -
  assume l: "lost p s"
  have "lost p (settle Fulfilled (s\<lparr>lastStart := now s\<rparr>))"
    by (rule lost_frame [OF l]) (auto simp: settle_def split: option.splits Thenable.splits)
  then have "lost p (emit [Fire ''onTsServerStarted''] (settle Fulfilled (s\<lparr>lastStart := now s\<rparr>)))"
    by (rule lost_emit_other) simp
  then show ?thesis
    by (auto simp: onForked_def serviceStarted_def setCompilerOptionsForInferredProjects_def
          executeWithoutWaitingForResponse_def Let_def
          intro!: lost_executeImpl lost_emit_other)
qed

lemma lost_step_action:
  assumes l: "lost p s"
  shows "lost p (step s a)"
proof (cases a)
  case (TokenCancelled sq)
  then show ?thesis using lost_tryCancelRequest [OF l] by simp
next
  case (MessageRead m)
  then show ?thesis using lost_reader_deliver [OF l] by simp
next
  case (Forked r)
  then show ?thesis using lost_onForked [OF l] by simp
next
  case (ServiceRejected req err)
  then show ?thesis using lost_sendRequest_failed [OF l] by simp
next
  case (ServiceFulfilled req)
  then show ?thesis using lost_emit_other [OF l, of "Write req"] by (simp add: sendRequest_write_def)
next
  case (ProcessError err)
  have "lost p (emit [LogError ''TSServer errored with error.'' err, LogTelemetry ''tsserver.error'']
          (s\<lparr>lastError := Some err\<rparr>))"
    by (rule lost_emit_others, rule lost_frame [OF l]) auto
  then show ?thesis using ProcessError by (simp add: onError_def lost_serviceExited)
next
  case (ProcessExit code)
  have "lost p (emit [LogError m d, LogTelemetry x] s)" for m d x
    using l by (rule lost_emit_others) simp
  then have "lost p (case code of None \<Rightarrow> s
      | Some n \<Rightarrow> emit [LogError (''TSServer exited with code: '' @ show_int n) Undefined,
            LogTelemetry ''tsserver.exitWithCode''] s)" (is "lost p ?s1")
    using l by (cases code) simp_all
  then have "lost p (serviceExited ?s1 (\<not> isRestarting ?s1))" by (rule lost_serviceExited)
  then have "lost p ((serviceExited ?s1 (\<not> isRestarting ?s1))\<lparr>isRestarting := False\<rparr>)"
    by (rule lost_frame) auto
  then show ?thesis using ProcessExit by (simp add: onExit_def Let_def)
next
  case (ForkFailed err)
  have "lost p (emit [LogError ''Starting TSServer failed with error.'' err,
              ShowErrorMessage ''serverCouldNotBeStarted'',
              LogTelemetry ''error''] (s\<lparr>lastError := Some err\<rparr>))"
    by (rule lost_emit_others, rule lost_frame [OF l]) auto
  then show ?thesis using ForkFailed by (simp add: onForkFailed_def lost_resetClientVersion)
next
  case RestartKill
  have "lost p (emit [Kill] (s\<lparr>isRestarting := True\<rparr>))"
    by (rule lost_emit_other, rule lost_frame [OF l]) auto
  then show ?thesis using RestartKill by (simp add: restartTsServer_kill_def lost_resetClientVersion)
next
  case (StartRejected err)
  show ?thesis unfolding StartRejected
    by (rule lost_frame [OF l]) (auto simp: onStartRejected_def settle_def split: option.splits Thenable.splits)
next
  case RestartTsServer
  show ?thesis
  proof (cases "servicePromise s")
    case None
    then show ?thesis using RestartTsServer l by (simp add: restartTsServer_def lost_startService)
  next
    case (Some pr)
    have "lost p (s\<lparr>servicePromise := Some Pending\<rparr>)" by (rule lost_frame [OF l]) auto
    then show ?thesis using RestartTsServer Some by (simp add: restartTsServer_def)
  qed
next
  case (ClockSet t)
  show ?thesis unfolding ClockSet by (rule lost_frame [OF l]) auto
next
  case (VersionPicked v)
  show ?thesis unfolding VersionPicked by (rule lost_frame [OF l]) auto
qed (use l in \<open>auto simp: execute_def executeAsync_def executeWithoutWaitingForResponse_def
       ensureServiceStarted_def intro: lost_executeImpl lost_startService\<close>)

lemma lost_run: "lost p s \<Longrightarrow> lost p (run s acts)"
  unfolding run_def by (induction acts arbitrary: s) (auto simp: lost_step_action)

lemma lost_never_called:
  assumes "lost p s"
  shows "Call (ResolveFn p) v \<notin> set (effects (run s acts))
       \<and> Call (RejectFn p) v \<notin> set (effects (run s acts))"
  using lost_run [OF assms, of acts] by (auto simp: lost_def called_promises_def)

section \<open>Sequence numbers are registered once\<close>

lemma keys_update: "fst ` set (AList.update k v xs) = insert k (fst ` set xs)"
  by (induction xs) auto

lemma keys_delete: "fst ` set (AList.delete k xs) \<subseteq> fst ` set xs"
  by (auto simp: AList.delete_eq)

lemma numbered_startService [simp]: "numbered (startService s)"
  by (simp add: numbered_def queued_seqs_def sync_keys_def async_keys_def startService_def
        Let_def new_RequestQueue_def new_CallbackMap_def)

lemma numbered_service: "numbered s \<Longrightarrow> numbered (snd (service s))"
  by (auto simp: service_def Let_def split: option.splits)

lemma numbered_frame:
  "numbered s \<Longrightarrow> requestQueue s' = requestQueue s \<Longrightarrow> client_callbacks s' = client_callbacks s \<Longrightarrow>
   numbered s'"
  by (simp add: numbered_def queued_seqs_def sync_keys_def async_keys_def)

text \<open>Fewer queued and registered numbers, the same counter.\<close>

lemma numbered_subset:
  assumes "numbered s"
    and "sequenceNumber (requestQueue s') = sequenceNumber (requestQueue s)"
    and "distinct (queued_seqs s')" "set (queued_seqs s') \<subseteq> set (queued_seqs s)"
    and "sync_keys s' \<subseteq> sync_keys s" "async_keys s' \<subseteq> async_keys s"
  shows "numbered s'"
  using assms unfolding numbered_def by (simp; blast)

lemma numbered_sendRequest:
  assumes "numbered s" "queue (requestQueue s) \<noteq> []"
  shows "numbered (sendRequest (dequeue s) (hd (queue (requestQueue s))))"
proof -
  let ?item = "hd (queue (requestQueue s))"
  let ?k = "seq (request ?item)"
  let ?s1 = "emit [TraceRequest (request ?item)] (dequeue s)"
  let ?s2 = "case item_callbacks ?item of
               Some cbs \<Rightarrow> ?s1\<lparr>client_callbacks :=
                   add (client_callbacks ?s1) ?k cbs (isAsync ?item)\<rparr>
             | None \<Rightarrow> ?s1"
  have qs: "queued_seqs s = ?k # queued_seqs ?s1"
    using assms(2) by (cases "queue (requestQueue s)") (auto simp: queued_seqs_def emit_def dequeue_def)
  have same: "sequenceNumber (requestQueue ?s1) = sequenceNumber (requestQueue s)"
    "sync_keys ?s1 = sync_keys s" "async_keys ?s1 = async_keys s"
    by (simp_all add: emit_def dequeue_def sync_keys_def async_keys_def)
  have n1: "numbered ?s1"
    using assms(1) by (rule numbered_subset) (use assms(1) in \<open>auto simp: same qs numbered_def\<close>)
  have k: "?k < sequenceNumber (requestQueue ?s1)" "?k \<notin> set (queued_seqs ?s1)"
    "?k \<notin> sync_keys ?s1" "?k \<notin> async_keys ?s1"
    using assms(1) unfolding numbered_def same qs by auto
  have "numbered ?s2"
  proof (cases "item_callbacks ?item")
    case None
    then show ?thesis using n1 by simp
  next
    case (Some cbs)
    let ?s3 = "?s1\<lparr>client_callbacks := add (client_callbacks ?s1) ?k cbs (isAsync ?item)\<rparr>"
    have keys: "sync_keys ?s3 \<union> async_keys ?s3 = insert ?k (sync_keys ?s1 \<union> async_keys ?s1)"
      "sync_keys ?s3 \<inter> async_keys ?s3 = {}"
      "queued_seqs ?s3 = queued_seqs ?s1"
      "sequenceNumber (requestQueue ?s3) = sequenceNumber (requestQueue ?s1)"
      using n1 k(3,4)
      by (auto simp: sync_keys_def async_keys_def add_def keys_update queued_seqs_def numbered_def)
    have "numbered ?s3"
      unfolding numbered_def keys using n1 k by (auto simp: numbered_def)
    then show ?thesis using Some by simp
  qed
  then have "numbered (snd (service ?s2))" by (rule numbered_service)
  then show ?thesis by (simp add: sendRequest_def Let_def)
qed

lemma numbered_sendNextRequests: "numbered s \<Longrightarrow> numbered (sendNextRequests s)"
  by (rule sendNextRequests_preserves [where P = numbered]) (auto intro: numbered_sendRequest)

lemma numbered_executeImpl:
  assumes "numbered s"
  shows "numbered (executeImpl s cmd args a r)"
proof -
  have "numbered s'"
    if "sequenceNumber (requestQueue s') = Suc (sequenceNumber (requestQueue s))"
      "queued_seqs s' = queued_seqs s @ [sequenceNumber (requestQueue s)]"
      "sync_keys s' = sync_keys s" "async_keys s' = async_keys s" for s'
    using assms unfolding numbered_def that by (auto simp: less_Suc_eq)
  then show ?thesis
    unfolding executeImpl_def createRequest_def Let_def split_beta fst_conv snd_conv
    by (intro numbered_sendNextRequests)
       (auto simp: queued_seqs_def push_def sync_keys_def async_keys_def)
qed

lemma numbered_fetched:
  assumes "numbered s" "fetch (client_callbacks s) sq = (r, t)"
  shows "numbered (s\<lparr>client_callbacks := t\<rparr>)"
proof -
  have t: "t = delete (client_callbacks s) sq" using assms(2) by (simp add: fetch_def Let_def)
  show ?thesis
    using assms(1)
  proof (rule numbered_subset)
    show "sync_keys (s\<lparr>client_callbacks := t\<rparr>) \<subseteq> sync_keys s"
      using keys_delete [of sq "callbacks (client_callbacks s)"]
      by (auto simp: t delete_def sync_keys_def)
    show "async_keys (s\<lparr>client_callbacks := t\<rparr>) \<subseteq> async_keys s"
      using keys_delete [of sq "asyncCallbacks (client_callbacks s)"]
      by (auto simp: t delete_def async_keys_def)
  qed (use assms(1) in \<open>auto simp: queued_seqs_def numbered_def\<close>)
qed

lemma numbered_emit [simp]: "numbered (emit es s) = numbered s"
  by (simp add: numbered_def emit_def queued_seqs_def sync_keys_def async_keys_def)

lemma numbered_fetch_cases:
  assumes "numbered s"
  shows "numbered (case fetch (client_callbacks s) sq of
                     (Some cb, t) \<Rightarrow> emit (es cb) (s\<lparr>client_callbacks := t\<rparr>)
                   | (None, t) \<Rightarrow> s\<lparr>client_callbacks := t\<rparr>)"
  using numbered_fetched [OF assms]
  by (cases "fetch (client_callbacks s) sq") (auto split: option.splits)

lemma cancel_scan_subset: "set (snd (cancel_scan items sq)) \<subseteq> set items"
  by (induction items) (auto split: prod.splits)

lemma cancel_scan_distinct:
  "distinct (map f items) \<Longrightarrow> distinct (map f (snd (cancel_scan items sq)))"
proof (induction items)
  case Nil
  then show ?case by simp
next
  case (Cons a items)
  then have "f a \<notin> f ` set (snd (cancel_scan items sq))"
    using cancel_scan_subset [of items sq] by auto
  then show ?case using Cons by (auto split: prod.splits)
qed

lemma cancel_scan_sublist:
  "set (map f (snd (cancel_scan items sq))) \<subseteq> set (map f items)
   \<and> (distinct (map f items) \<longrightarrow> distinct (map f (snd (cancel_scan items sq))))"
  using cancel_scan_subset [of items sq] cancel_scan_distinct [of f items sq] by auto

lemma numbered_cancel_queue:
  assumes "numbered s"
  shows "numbered (s\<lparr>requestQueue := snd (tryCancelPendingRequest (requestQueue s) sq)\<rparr>)"
  using assms
proof (rule numbered_subset)
  let ?s' = "s\<lparr>requestQueue := snd (tryCancelPendingRequest (requestQueue s) sq)\<rparr>"
  have q: "queued_seqs ?s' = map (\<lambda>item. seq (request item)) (snd (cancel_scan (queue (requestQueue s)) sq))"
    by (simp add: queued_seqs_def tryCancelPendingRequest_def split_beta)
  show "distinct (queued_seqs ?s')"
    using assms cancel_scan_sublist [of "\<lambda>item. seq (request item)" "queue (requestQueue s)" sq]
    unfolding q by (simp add: numbered_def queued_seqs_def)
  show "set (queued_seqs ?s') \<subseteq> set (queued_seqs s)"
    using cancel_scan_sublist [of "\<lambda>item. seq (request item)" "queue (requestQueue s)" sq]
    unfolding q by (simp add: queued_seqs_def)
qed (auto simp: tryCancelPendingRequest_def split_beta sync_keys_def async_keys_def)

lemma numbered_tryCancelRequest:
  assumes "numbered s"
  shows "numbered (snd (tryCancelRequest s sq))"
proof -
  let ?s1 = "s\<lparr>requestQueue := snd (tryCancelPendingRequest (requestQueue s) sq)\<rparr>"
  have l1: "numbered ?s1" using assms by (rule numbered_cancel_queue)
  then have l2: "numbered (emit [WriteFileSync w] ?s1)" for w by simp
  show ?thesis
  proof (cases "fetch (client_callbacks s) sq")
    case (Pair r t)
    then have f1: "fetch (client_callbacks ?s1) sq = (r, t)"
      and f2: "fetch (client_callbacks (emit [WriteFileSync w] ?s1)) sq = (r, t)" for w
      by (simp_all add: emit_def)
    have n1: "numbered (?s1\<lparr>client_callbacks := t\<rparr>)"
      using numbered_fetched [OF l1 f1] .
    have n2: "numbered ((emit [WriteFileSync w] ?s1)\<lparr>client_callbacks := t\<rparr>)" for w
      using numbered_fetched [OF l2 f2] .
    show ?thesis
      using n1 n2 f1 f2 Pair
      by (cases r) (auto simp: tryCancelRequest_def Let_def split_beta split: option.splits)
  qed
qed


lemma numbered_sendRequest_failed: "numbered s \<Longrightarrow> numbered (sendRequest_failed s req err)"
  using numbered_fetch_cases [where s = s and sq = "seq req" and es = "\<lambda>cb. [Call (e cb) err]"]
  by (simp add: sendRequest_failed_def)

lemma numbered_dispatchEvent: "numbered s \<Longrightarrow> numbered (snd (dispatchEvent s ev))"
  by (cases "fetch (client_callbacks s) (case event_body ev of Some (RequestCompletedBody sq) \<Rightarrow> sq | _ \<Rightarrow> 0)")
     (auto simp: dispatchEvent_def split: option.splits EventBody.splits prod.splits
           dest: numbered_fetched)

lemma numbered_dispatchMessage:
  assumes "numbered s"
  shows "numbered (snd (dispatchMessage s msg))"
proof (cases msg)
  case (ResponseMsg r)
  show ?thesis
    using numbered_fetched [OF assms, of "request_seq r"]
    by (cases "fetch (client_callbacks s) (request_seq r)")
       (auto simp: ResponseMsg dispatchMessage_def split: option.splits
             intro!: numbered_sendNextRequests)
next
  case (EventMsg ev)
  show ?thesis
    using numbered_dispatchEvent [OF assms, of ev]
    by (cases "dispatchEvent s ev")
       (auto simp: EventMsg dispatchMessage_def intro!: numbered_sendNextRequests)
next
  case (OtherMsg ty)
  show ?thesis
    using assms by (auto simp: OtherMsg dispatchMessage_def intro!: numbered_sendNextRequests)
qed

lemma numbered_reader_deliver: "numbered s \<Longrightarrow> numbered (reader_deliver s msg)"
  using numbered_dispatchMessage [of s msg]
  by (cases "dispatchMessage s msg") (auto simp: reader_deliver_def split: option.splits)

lemma numbered_cleared:
  assumes "numbered s"
  shows "numbered (s\<lparr>client_callbacks := new_CallbackMap\<rparr>)"
  using assms
  by (rule numbered_subset)
     (use assms in \<open>auto simp: queued_seqs_def sync_keys_def async_keys_def new_CallbackMap_def numbered_def\<close>)

lemma numbered_resetClientVersion [simp]: "numbered (resetClientVersion s) = numbered s"
  by (simp add: numbered_def resetClientVersion_def queued_seqs_def sync_keys_def async_keys_def)

lemma numbered_serviceExited:
  assumes "numbered s"
  shows "numbered (serviceExited s restart)"
proof -
  have "numbered ((emit es (s\<lparr>servicePromise := None, tsServerLogFile := None\<rparr>))
                  \<lparr>client_callbacks := new_CallbackMap\<rparr>)" (is "numbered ?s2") for es
  proof -
    have "numbered (emit es (s\<lparr>servicePromise := None, tsServerLogFile := None\<rparr>))"
      using assms by (simp add: numbered_frame [of s])
    then show ?thesis by (rule numbered_cleared)
  qed
  moreover have "numbered (s'\<lparr>numberRestarts := n\<rparr>)" "numbered (s'\<lparr>lastStart := l\<rparr>)"
    if "numbered s'" for s' n l
    using that by (auto intro: numbered_frame [of s'])
  ultimately show ?thesis
    unfolding serviceExited_def Let_def split_beta by auto
qed

lemma numbered_onForked: "numbered s \<Longrightarrow> numbered (onForked s r)"
proof -
  assume l: "numbered s"
  have "numbered (settle Fulfilled (s\<lparr>lastStart := now s\<rparr>))"
    by (rule numbered_frame [OF l]) (auto simp: settle_def split: option.splits Thenable.splits)
  then show ?thesis
    by (auto simp: onForked_def serviceStarted_def setCompilerOptionsForInferredProjects_def
          executeWithoutWaitingForResponse_def Let_def
          intro!: numbered_executeImpl)
qed

lemma numbered_step:
  assumes l: "numbered s"
  shows "numbered (step s a)"
proof (cases a)
  case (TokenCancelled sq)
  then show ?thesis using numbered_tryCancelRequest [OF l] by simp
next
  case (MessageRead m)
  then show ?thesis using numbered_reader_deliver [OF l] by simp
next
  case (Forked r)
  then show ?thesis using numbered_onForked [OF l] by simp
next
  case (ServiceRejected req err)
  then show ?thesis using numbered_sendRequest_failed [OF l] by simp
next
  case (ProcessError err)
  have "numbered (s\<lparr>lastError := Some err\<rparr>)" by (rule numbered_frame [OF l]) auto
  then show ?thesis using ProcessError by (simp add: onError_def numbered_serviceExited)
next
  case (ProcessExit code)
  let ?s1 = "case code of None \<Rightarrow> s
      | Some n \<Rightarrow> emit [LogError (''TSServer exited with code: '' @ show_int n) Undefined,
            LogTelemetry ''tsserver.exitWithCode''] s"
  have "numbered ?s1" using l by (cases code) simp_all
  then have "numbered (serviceExited ?s1 (\<not> isRestarting ?s1))" by (rule numbered_serviceExited)
  then have "numbered ((serviceExited ?s1 (\<not> isRestarting ?s1))\<lparr>isRestarting := False\<rparr>)"
    by (rule numbered_frame) auto
  then show ?thesis using ProcessExit by (simp add: onExit_def Let_def)
next
  case (ForkFailed err)
  have "numbered (s\<lparr>lastError := Some err\<rparr>)" by (rule numbered_frame [OF l]) auto
  then show ?thesis using ForkFailed by (simp add: onForkFailed_def)
next
  case RestartKill
  have "numbered (s\<lparr>isRestarting := True\<rparr>)" by (rule numbered_frame [OF l]) auto
  then show ?thesis using RestartKill by (simp add: restartTsServer_kill_def)
next
  case (StartRejected err)
  show ?thesis unfolding StartRejected
    by (rule numbered_frame [OF l]) (auto simp: onStartRejected_def settle_def split: option.splits Thenable.splits)
next
  case RestartTsServer
  show ?thesis
  proof (cases "servicePromise s")
    case None
    then show ?thesis using RestartTsServer by (simp add: restartTsServer_def)
  next
    case (Some pr)
    have "numbered (s\<lparr>servicePromise := Some Pending\<rparr>)" by (rule numbered_frame [OF l]) auto
    then show ?thesis using RestartTsServer Some by (simp add: restartTsServer_def)
  qed
next
  case (ClockSet t)
  show ?thesis unfolding ClockSet by (rule numbered_frame [OF l]) auto
next
  case (VersionPicked v)
  show ?thesis unfolding VersionPicked by (rule numbered_frame [OF l]) auto
qed (use l in \<open>auto simp: execute_def executeAsync_def executeWithoutWaitingForResponse_def
       ensureServiceStarted_def sendRequest_write_def intro: numbered_executeImpl\<close>)

lemma numbered_run: "numbered s \<Longrightarrow> numbered (run s acts)"
  unfolding run_def by (induction acts arbitrary: s) (auto simp: numbered_step)

lemma numbered_new_Client [simp]: "numbered (new_Client t dv pv tf)"
  by (simp add: numbered_def new_Client_def queued_seqs_def sync_keys_def async_keys_def
        new_RequestQueue_def new_CallbackMap_def)

text \<open>In every state the client reaches, no sequence number is registered in both maps.\<close>

lemma registered_once:
  "map_of (callbacks (client_callbacks (run (new_Client t dv pv tf) acts))) sq = None
   \<or> map_of (asyncCallbacks (client_callbacks (run (new_Client t dv pv tf) acts))) sq = None"
proof -
  have "numbered (run (new_Client t dv pv tf) acts)" by (rule numbered_run) simp
  then have "sq \<notin> sync_keys (run (new_Client t dv pv tf) acts)
             \<or> sq \<notin> async_keys (run (new_Client t dv pv tf) acts)"
    by (auto simp: numbered_def)
  then show ?thesis
    by (auto simp: sync_keys_def async_keys_def map_of_eq_None_iff)
qed

subsection \<open>The example states, evaluated\<close>

lemmas example_defs =
  client0_def started0_def sent_example_def gate_example_def queued_example_def lazy_example_def
  new_Client_def ensureServiceStarted_def startService_def execute_def executeAsync_def
  executeImpl_def createRequest_def push_def queue_length_def shift_def sendRequest_def
  service_def add_def emit_def new_RequestQueue_def new_CallbackMap_def v222_def Let_def

lemma sent_example_eq:
  "sent_example =
     \<lparr>servicePromise = Some Pending, lastError = None, lastStart = 0,
      numberRestarts = 0, isRestarting = False, cancellationPipeName = None,
      tsServerLogFile = None, requestQueue = \<lparr>queue = [], sequenceNumber = 1\<rparr>,
      client_callbacks =
        \<lparr>callbacks = [(0, \<lparr>c = ResolveFn 0, e = RejectFn 0, start = 0\<rparr>)],
         asyncCallbacks = [], pendingResponses = 1\<rparr>,
      apiVersion = API 2 0 0, tsserverVersion = None, now = 0,
      versionPicker_currentVersion = Some (API 2 0 0),
      tempFile = ''/tmp/tscancellation'', API_defaultVersion = API 1 0 0,
      promises = 1,
      effects = [TraceRequest \<lparr>seq = 0, command = ''quickinfo'', arguments = ''a''\<rparr>]\<rparr>"
  by (simp add: example_defs sendNextRequests.simps)

lemma gate_example_eq:
  "gate_example =
     sent_example
       \<lparr>requestQueue :=
          \<lparr>queue = [\<lparr>request = \<lparr>seq = 1, command = ''geterr'', arguments = ''b''\<rparr>,
                      item_callbacks = Some \<lparr>c = ResolveFn 1, e = RejectFn 1, start = 0\<rparr>,
                      isAsync = True\<rparr>],
           sequenceNumber = 2\<rparr>,
        promises := 2\<rparr>"
  unfolding gate_example_def sent_example_eq
  by (simp add: executeAsync_def executeImpl_def createRequest_def push_def Let_def sendNextRequests.simps)

lemma queued_example_eq:
  "queued_example =
     sent_example
       \<lparr>requestQueue :=
          \<lparr>queue = [\<lparr>request = \<lparr>seq = 1, command = ''completions'', arguments = ''b''\<rparr>,
                      item_callbacks = Some \<lparr>c = ResolveFn 1, e = RejectFn 1, start = 0\<rparr>,
                      isAsync = False\<rparr>],
           sequenceNumber = 2\<rparr>,
        promises := 2\<rparr>"
  unfolding queued_example_def sent_example_eq
  by (simp add: execute_def executeImpl_def createRequest_def push_def Let_def sendNextRequests.simps)

lemma lazy_example_eq:
  "lazy_example =
     \<lparr>servicePromise = Some Pending, lastError = None, lastStart = 0,
      numberRestarts = 0, isRestarting = False, cancellationPipeName = None,
      tsServerLogFile = None, requestQueue = \<lparr>queue = [], sequenceNumber = 0\<rparr>,
      client_callbacks = \<lparr>callbacks = [], asyncCallbacks = [], pendingResponses = 0\<rparr>,
      apiVersion = API 2 0 0, tsserverVersion = None, now = 0,
      versionPicker_currentVersion = Some (API 2 0 0),
      tempFile = ''/tmp/tscancellation'', API_defaultVersion = API 1 0 0,
      promises = 1,
      effects = [TraceRequest \<lparr>seq = 0, command = ''quickinfo'', arguments = ''a''\<rparr>]\<rparr>"
  by (simp add: example_defs sendNextRequests.simps)

lemma show_nat_0 [simp]: "show_nat 0 = ''0''" by (simp add: show_nat.simps)
lemma show_nat_1 [simp]: "show_nat (Suc 0) = ''1''" by (simp add: show_nat.simps)

section \<open>The drain gate\<close>

text \<open>The requests one run of the drain loop sends are exactly those of \<open>drained\<close>.\<close>

lemma sendNextRequests_sends:
  "effects (sendNextRequests s)
     = effects s @ map (\<lambda>item. TraceRequest (request item)) (drained s)"
proof (induction s rule: sendNextRequests.induct)
  case (1 s)
  show ?case
  proof (cases "pendingResponses (client_callbacks s) = 0 \<and> queue (requestQueue s) \<noteq> []")
    case False
    then have "sendNextRequests s = s" using sendNextRequests_closed by blast
    moreover have "drained s = []" using False by (auto simp: drained_def)
    ultimately show ?thesis by simp
  next
    case True
    let ?item = "hd (queue (requestQueue s))"
    let ?q = "(requestQueue s)\<lparr>queue := tl (queue (requestQueue s))\<rparr>"
    let ?s' = "sendRequest (dequeue s) ?item"
    let ?rest = "tl (queue (requestQueue s))"
    have tk: "take 1 (queue (requestQueue s)) = [?item]"
      and ug: "upto_gate (queue (requestQueue s))
                 = (if holds_gate ?item then [?item] else ?item # upto_gate ?rest)"
      using True by (cases "queue (requestQueue s)"; simp)+
    have sh: "shift (requestQueue s) = (Some ?item, ?q)" using True shift_nonempty by blast
    have guard: "pendingResponses (client_callbacks s) = 0 \<and> 0 < queue_length (requestQueue s)"
      using True by (simp add: queue_length_def)
    have ih: "effects (sendNextRequests ?s')
                = effects ?s' @ map (\<lambda>item. TraceRequest (request item)) (drained ?s')"
      using "1.IH" [OF guard sh [symmetric] refl] by (simp add: dequeue_def)
    have e: "effects ?s' = effects s @ [TraceRequest (request ?item)]"
      by (auto simp: sendRequest_def service_def startService_def emit_def dequeue_def Let_def
            split: option.splits)
    have d: "drained s = ?item # drained ?s'"
    proof (cases "servicePromise s = None \<and> lastError s = None")
      case lazy: True
      then have "queue (requestQueue ?s') = []" "pendingResponses (client_callbacks ?s') = 0"
        "servicePromise ?s' \<noteq> None"
        by (auto simp: sendRequest_def service_def startService_def emit_def dequeue_def Let_def
              new_RequestQueue_def new_CallbackMap_def split: option.splits)
      then have "drained ?s' = []" by (simp add: drained_def)
      then show ?thesis using lazy True tk by (simp add: drained_def)
    next
      case False
      then have same: "servicePromise ?s' = servicePromise s" "lastError ?s' = lastError s"
        "queue (requestQueue ?s') = ?rest"
        "pendingResponses (client_callbacks ?s') = (if holds_gate ?item then 1 else 0)"
        using True
        by (auto simp: sendRequest_def service_def emit_def dequeue_def Let_def add_def
              holds_gate_def split: option.splits)
      have "drained ?s' = (if holds_gate ?item then [] else upto_gate ?rest)"
        using False same by (auto simp: drained_def)
      moreover have "drained s = upto_gate (queue (requestQueue s))"
        using False True by (auto simp: drained_def)
      ultimately show ?thesis using ug by simp
    qed
    show ?thesis
      using sendNextRequests_open [of s] True ih e d by simp
  qed
qed

lemma sendRequest_gate_stays_open:
  assumes "isAsync item \<or> item_callbacks item = None"
  shows "pendingResponses (client_callbacks (sendRequest s item)) = pendingResponses (client_callbacks s)
         \<or> pendingResponses (client_callbacks (sendRequest s item)) = 0"
  using assms
  by (auto simp: sendRequest_def service_def startService_def add_def emit_def Let_def
        new_CallbackMap_def split: option.splits)

text \<open>
  C1, as stated, fails in two places. It says that asynchronous requests may be sent
  while a synchronous request is outstanding: in \<open>gate_example\<close> the synchronous
  request 0 is registered and the asynchronous request 1 was issued after it; request 1
  sits in the queue, only request 0 has been traced as sent, and running the drain loop
  again sends nothing. And it says that at most one synchronous request is ever in
  flight: in \<open>pipelined_example\<close> the synchronous request 1 is written to the worker,
  its token fires, the \<^verbatim>\<open>finally\<close> block of \<^verbatim>\<open>tryCancelRequest\<close> removes its callback,
  which reopens the gate, and the synchronous request 2 is written although the worker
  has replied to nothing: no message was read in that run.
\<close>

theorem gate_fails_as_stated:
  "callbacks (client_callbacks gate_example)
     = [(0, \<lparr>c = ResolveFn 0, e = RejectFn 0, start = 0\<rparr>)]
   \<and> queue (requestQueue gate_example)
     = [\<lparr>request = \<lparr>seq = 1, command = ''geterr'', arguments = ''b''\<rparr>,
         item_callbacks = Some \<lparr>c = ResolveFn 1, e = RejectFn 1, start = 0\<rparr>,
         isAsync = True\<rparr>]
   \<and> effects gate_example = [TraceRequest \<lparr>seq = 0, command = ''quickinfo'', arguments = ''a''\<rparr>]
   \<and> sendNextRequests gate_example = gate_example
   \<and> effects pipelined_example
       = [Fire ''onTsServerStarted'',
          TraceRequest \<lparr>seq = 0, command = ''configure'', arguments = ''hostInfo''\<rparr>,
          Write \<lparr>seq = 0, command = ''configure'', arguments = ''hostInfo''\<rparr>,
          TraceRequest \<lparr>seq = 1, command = ''quickinfo'', arguments = ''a''\<rparr>,
          Write \<lparr>seq = 1, command = ''quickinfo'', arguments = ''a''\<rparr>,
          Call (RejectFn 0) (ErrorObj ''Cancelled Request 1''),
          TraceRequest \<lparr>seq = 2, command = ''completions'', arguments = ''b''\<rparr>,
          Write \<lparr>seq = 2, command = ''completions'', arguments = ''b''\<rparr>]
   \<and> callbacks (client_callbacks pipelined_example)
       = [(2, \<lparr>c = ResolveFn 1, e = RejectFn 1, start = 0\<rparr>)]"
proof -
  have "effects pipelined_example
       = [Fire ''onTsServerStarted'',
          TraceRequest \<lparr>seq = 0, command = ''configure'', arguments = ''hostInfo''\<rparr>,
          Write \<lparr>seq = 0, command = ''configure'', arguments = ''hostInfo''\<rparr>,
          TraceRequest \<lparr>seq = 1, command = ''quickinfo'', arguments = ''a''\<rparr>,
          Write \<lparr>seq = 1, command = ''quickinfo'', arguments = ''a''\<rparr>,
          Call (RejectFn 0) (ErrorObj ''Cancelled Request 1''),
          TraceRequest \<lparr>seq = 2, command = ''completions'', arguments = ''b''\<rparr>,
          Write \<lparr>seq = 2, command = ''completions'', arguments = ''b''\<rparr>]"
    by code_simp
  moreover have "callbacks (client_callbacks pipelined_example)
       = [(2, \<lparr>c = ResolveFn 1, e = RejectFn 1, start = 0\<rparr>)]"
    by code_simp
  moreover have "callbacks (client_callbacks gate_example)
     = [(0, \<lparr>c = ResolveFn 0, e = RejectFn 0, start = 0\<rparr>)]
   \<and> queue (requestQueue gate_example)
     = [\<lparr>request = \<lparr>seq = 1, command = ''geterr'', arguments = ''b''\<rparr>,
         item_callbacks = Some \<lparr>c = ResolveFn 1, e = RejectFn 1, start = 0\<rparr>,
         isAsync = True\<rparr>]
   \<and> effects gate_example = [TraceRequest \<lparr>seq = 0, command = ''quickinfo'', arguments = ''a''\<rparr>]
   \<and> sendNextRequests gate_example = gate_example"
    unfolding gate_example_eq sent_example_eq by (simp add: sendNextRequests.simps)
  ultimately show ?thesis by simp
qed

text \<open>
  C1, amended. The drain loop sends nothing when the count of outstanding synchronous
  responses is not zero or the queue is empty, and otherwise sends the first entry and
  goes on: one run of it hands over exactly the entries of \<open>drained\<close>, which are none
  while the count is not zero and, once a service promise or an error exists, the
  queued entries in order up to and including the first synchronous one with a
  callback. In every state the client reaches from its construction, by any sequence
  of actions, at most one synchronous callback is registered in the table and the
  counter equals their number; a request whose callback a cancellation has removed is
  no longer counted, whatever the worker is doing with it. Registering an asynchronous
  callback leaves the counter as it is, and sending an asynchronous or callback-free
  request leaves the counter as it is or, when the send starts the service, at zero.
  So such requests never close the gate, but they wait like any other while a
  synchronous request is outstanding.
\<close>

theorem drain_gate:
  "(pendingResponses (client_callbacks s) \<noteq> 0 \<or> queue (requestQueue s) = [] \<longrightarrow>
      sendNextRequests s = s)
   \<and> (pendingResponses (client_callbacks s) = 0 \<and> queue (requestQueue s) \<noteq> [] \<longrightarrow>
      sendNextRequests s
        = sendNextRequests (sendRequest (dequeue s) (hd (queue (requestQueue s)))))
   \<and> length (callbacks (client_callbacks (run (new_Client t dv pv tf) acts))) \<le> 1
   \<and> pendingResponses (client_callbacks (run (new_Client t dv pv tf) acts))
       = int (length (callbacks (client_callbacks (run (new_Client t dv pv tf) acts))))
   \<and> pendingResponses (add tbl sq cb True) = pendingResponses tbl
   \<and> (isAsync item \<or> item_callbacks item = None \<longrightarrow>
        pendingResponses (client_callbacks (sendRequest s item))
          = pendingResponses (client_callbacks s)
        \<or> pendingResponses (client_callbacks (sendRequest s item)) = 0)
   \<and> effects (sendNextRequests s)
       = effects s @ map (\<lambda>item. TraceRequest (request item)) (drained s)"
proof -
  have "gate_ok (client_callbacks (run (new_Client t dv pv tf) acts))"
    by (rule gate_ok_run) simp
  then show ?thesis
    using sendNextRequests_closed [of s] sendNextRequests_open [of s]
      sendRequest_gate_stays_open [of item s] sendNextRequests_sends [of s]
    by (simp add: gate_ok_def add_def)
qed

text \<open>
  Witness for C1: the closed gate at \<open>gate_example\<close>; the open gate at the same state
  once the synchronous callback is gone, where the asynchronous request is sent; a run
  of three actions.
\<close>

theorem drain_gate_witness:
  "pendingResponses (client_callbacks gate_example) \<noteq> 0
   \<and> sendNextRequests gate_example = gate_example
   \<and> pendingResponses (client_callbacks (gate_example\<lparr>client_callbacks := new_CallbackMap\<rparr>)) = 0
   \<and> queue (requestQueue (gate_example\<lparr>client_callbacks := new_CallbackMap\<rparr>)) \<noteq> []
   \<and> isAsync (hd (queue (requestQueue gate_example)))
   \<and> effects (sendNextRequests (gate_example\<lparr>client_callbacks := new_CallbackMap\<rparr>))
       = [TraceRequest \<lparr>seq = 0, command = ''quickinfo'', arguments = ''a''\<rparr>,
          TraceRequest \<lparr>seq = 1, command = ''geterr'', arguments = ''b''\<rparr>]
   \<and> pendingResponses
        (client_callbacks (sendNextRequests (gate_example\<lparr>client_callbacks := new_CallbackMap\<rparr>)))
       = 0
   \<and> length (callbacks (client_callbacks
        (run client0 [EnsureServiceStarted, Execute ''quickinfo'' ''a'',
                      ExecuteAsync ''geterr'' ''b'']))) \<le> 1"
proof -
  let ?s = "gate_example\<lparr>client_callbacks := new_CallbackMap\<rparr>"
  have closed: "pendingResponses (client_callbacks gate_example) \<noteq> 0"
    by (simp add: gate_example_eq sent_example_eq)
  have opened: "pendingResponses (client_callbacks ?s) = 0 \<and> queue (requestQueue ?s) \<noteq> []"
    by (simp add: gate_example_eq sent_example_eq new_CallbackMap_def)
  have async: "isAsync (hd (queue (requestQueue gate_example)))"
    by (simp add: gate_example_eq sent_example_eq)
  note g = drain_gate [of gate_example 0 "API 1 0 0" "Some (API 2 0 0)" "''/tmp/tscancellation''"
      "[EnsureServiceStarted, Execute ''quickinfo'' ''a'', ExecuteAsync ''geterr'' ''b'']"
      new_CallbackMap 0 "\<lparr>c = ResolveFn 0, e = RejectFn 0, start = 0\<rparr>"
      "hd (queue (requestQueue gate_example))"]
  note o = drain_gate [of ?s 0 "API 1 0 0" None "''''" "[]" new_CallbackMap 0
      "\<lparr>c = ResolveFn 0, e = RejectFn 0, start = 0\<rparr>" "hd (queue (requestQueue ?s))"]
  have 1: "sendNextRequests gate_example = gate_example"
    using g closed by blast
  have "sendNextRequests ?s
          = sendNextRequests (sendRequest (dequeue ?s) (hd (queue (requestQueue ?s))))"
    using o opened by blast
  then have 2: "sendNextRequests ?s
          = (dequeue ?s)\<lparr>effects := effects ?s @ [TraceRequest \<lparr>seq = 1, command = ''geterr'', arguments = ''b''\<rparr>],
               client_callbacks := add new_CallbackMap 1 \<lparr>c = ResolveFn 1, e = RejectFn 1, start = 0\<rparr> True\<rparr>"
    by (simp add: gate_example_eq sent_example_eq dequeue_def sendRequest_def service_def
          emit_def sendNextRequests.simps queue_length_def)
  have 3: "length (callbacks (client_callbacks
        (run client0 [EnsureServiceStarted, Execute ''quickinfo'' ''a'',
                      ExecuteAsync ''geterr'' ''b'']))) \<le> 1"
    using g by (simp add: client0_def)
  show ?thesis
    using closed opened async 1 3
    by (simp add: 2) (simp add: gate_example_eq sent_example_eq dequeue_def add_def new_CallbackMap_def)
qed

section \<open>Cancelling a request that was already sent\<close>

text \<open>
  C2, as stated, fails. In \<open>sent_example\<close> request 0 has left the queue and is
  registered, there is no cancellation pipe and the version is below 2.2.2. The
  cancellation reports \<open>False\<close>, and yet the \<^verbatim>\<open>finally\<close> block removes the callback
  and calls its failure path with the error \<^verbatim>\<open>Cancelled Request 0\<close>: the promise is
  rejected locally.
\<close>

theorem cancel_after_send_rejects_locally:
  "queue (requestQueue sent_example) = []
   \<and> callbacks (client_callbacks sent_example)
       = [(0, \<lparr>c = ResolveFn 0, e = RejectFn 0, start = 0\<rparr>)]
   \<and> cancellationPipeName sent_example = None
   \<and> \<not> gte (apiVersion sent_example) v222
   \<and> fst (tryCancelRequest sent_example 0) = False
   \<and> effects (snd (tryCancelRequest sent_example 0))
       = effects sent_example @ [Call (RejectFn 0) (ErrorObj ''Cancelled Request 0'')]
   \<and> callbacks (client_callbacks (snd (tryCancelRequest sent_example 0))) = []"
  unfolding sent_example_eq
  by (simp add: tryCancelRequest_def tryCancelPendingRequest_def fetch_def delete_def emit_def
        v222_def AList.delete_eq)

text \<open>
  A request that is sent while a service promise or a recorded error exists is
  registered in the table right after the send.
\<close>

lemma sent_request_registered:
  assumes "item_callbacks item = Some cb"
    and "servicePromise s \<noteq> None \<or> lastError s \<noteq> None"
    and "map_of (callbacks (client_callbacks s)) (seq (request item)) = None"
  shows "fst (fetch (client_callbacks (sendRequest s item)) (seq (request item))) = Some cb"
  using assms
  by (cases "isAsync item")
     (auto simp: sendRequest_def service_def emit_def add_def fetch_def Let_def
           AList.update_conv' split: option.splits)

text \<open>
  C2, amended. When the request is no longer in the queue and no side channel is
  available (the version is below 2.2.2, or there is no cancellation pipe name),
  \<^verbatim>\<open>tryCancelRequest\<close> reports \<open>False\<close> and leaves the queue as it is. If the callback of
  the request is still registered in the table, it is removed and its failure path is
  called at once with the error \<^verbatim>\<open>Cancelled Request <seq>\<close>: the promise does not wait
  for a response. If no callback is registered under that sequence number, nothing is
  called and the client is left as it was.
\<close>

theorem cancel_without_side_channel:
  assumes "\<forall>item \<in> set (queue (requestQueue s)). seq (request item) \<noteq> sq"
    and "\<not> gte (apiVersion s) v222 \<or> cancellationPipeName s = None
         \<or> cancellationPipeName s = Some []"
  shows "(\<forall>p. fst (fetch (client_callbacks s) sq) = Some p \<longrightarrow>
            tryCancelRequest s sq
              = (False,
                 emit [Call (e p) (ErrorObj (''Cancelled Request '' @ show_nat sq))]
                   (s\<lparr>client_callbacks := delete (client_callbacks s) sq\<rparr>)))
       \<and> (fst (fetch (client_callbacks s) sq) = None \<longrightarrow> tryCancelRequest s sq = (False, s))"
proof -
  have q: "tryCancelPendingRequest (requestQueue s) sq = (False, requestQueue s)"
    using cancel_scan_absent [OF assms(1)] by (simp add: tryCancelPendingRequest_def)
  have some: "fetch (client_callbacks s) sq = (Some p, delete (client_callbacks s) sq)"
    if "fst (fetch (client_callbacks s) sq) = Some p" for p
    using that by (simp add: fetch_def Let_def)
  have none: "fetch (client_callbacks s) sq = (None, client_callbacks s)"
    if "fst (fetch (client_callbacks s) sq) = None"
    using that fetch_absent [of "client_callbacks s" sq] by (metis prod.collapse)
  show ?thesis
    using assms(2) some none
    by (auto simp: tryCancelRequest_def q split: option.splits)
qed

text \<open>
  Witness for C2: the two hypotheses hold at \<open>sent_example\<close>, where the callback of
  request 0 is registered, and at \<open>lazy_example\<close>, where it is not.
\<close>

theorem cancel_without_side_channel_witness:
  "queue (requestQueue sent_example) = []
   \<and> \<not> gte (apiVersion sent_example) v222
   \<and> fst (fetch (client_callbacks sent_example) 0)
       = Some \<lparr>c = ResolveFn 0, e = RejectFn 0, start = 0\<rparr>
   \<and> tryCancelRequest sent_example 0
       = (False,
          emit [Call (RejectFn 0) (ErrorObj ''Cancelled Request 0'')]
            (sent_example\<lparr>client_callbacks := delete (client_callbacks sent_example) 0\<rparr>))
   \<and> queue (requestQueue lazy_example) = []
   \<and> \<not> gte (apiVersion lazy_example) v222
   \<and> fst (fetch (client_callbacks lazy_example) 0) = None
   \<and> tryCancelRequest lazy_example 0 = (False, lazy_example)"
proof -
  have h1: "\<forall>item \<in> set (queue (requestQueue sent_example)). seq (request item) \<noteq> 0"
    and l1: "\<forall>item \<in> set (queue (requestQueue lazy_example)). seq (request item) \<noteq> 0"
    by (simp_all add: sent_example_eq lazy_example_eq)
  have h2: "\<not> gte (apiVersion sent_example) v222 \<or> cancellationPipeName sent_example = None
         \<or> cancellationPipeName sent_example = Some []"
    and l2: "\<not> gte (apiVersion lazy_example) v222 \<or> cancellationPipeName lazy_example = None
         \<or> cancellationPipeName lazy_example = Some []"
    by (simp_all add: sent_example_eq lazy_example_eq v222_def)
  have h3: "fst (fetch (client_callbacks sent_example) 0)
              = Some \<lparr>c = ResolveFn 0, e = RejectFn 0, start = 0\<rparr>"
    and l3: "fst (fetch (client_callbacks lazy_example) 0) = None"
    by (simp_all add: sent_example_eq lazy_example_eq fetch_def)
  have h4: "queue (requestQueue sent_example) = []" "queue (requestQueue lazy_example) = []"
    by (simp_all add: sent_example_eq lazy_example_eq)
  have a: "tryCancelRequest sent_example 0
       = (False,
          emit [Call (RejectFn 0) (ErrorObj ''Cancelled Request 0'')]
            (sent_example\<lparr>client_callbacks := delete (client_callbacks sent_example) 0\<rparr>))"
    using cancel_without_side_channel [OF h1 h2, THEN conjunct1, rule_format, OF h3] by simp
  have b: "tryCancelRequest lazy_example 0 = (False, lazy_example)"
    using cancel_without_side_channel [OF l1 l2, THEN conjunct2, rule_format, OF l3] .
  show ?thesis
    using a b h3 l3 h4 by (simp add: sent_example_eq lazy_example_eq v222_def)
qed

section \<open>Dispatching a response\<close>

text \<open>
  C5, as stated, fails in what the callback receives: in \<open>sent_example\<close> a successful
  response to request 0 resolves the promise with the whole response message, not with
  its body, and a failed response rejects it with the whole response message, not with
  the error text.
\<close>

theorem response_resolves_with_whole_message:
  "calls (snd (dispatchMessage sent_example
        (ResponseMsg \<lparr>request_seq = 0, success = True, body = ''B'', message = ''''\<rparr>)))
     = [Call (ResolveFn 0)
          (ResponseObj \<lparr>request_seq = 0, success = True, body = ''B'', message = ''''\<rparr>)]
   \<and> calls (snd (dispatchMessage sent_example
        (ResponseMsg \<lparr>request_seq = 0, success = False, body = '''', message = ''M''\<rparr>)))
     = [Call (RejectFn 0)
          (ResponseObj \<lparr>request_seq = 0, success = False, body = '''', message = ''M''\<rparr>)]
   \<and> Call (ResolveFn 0) (Payload ''B'')
       \<notin> set (effects (snd (dispatchMessage sent_example
        (ResponseMsg \<lparr>request_seq = 0, success = True, body = ''B'', message = ''''\<rparr>))))
   \<and> Call (RejectFn 0) (ErrorObj ''M'')
       \<notin> set (effects (snd (dispatchMessage sent_example
        (ResponseMsg \<lparr>request_seq = 0, success = False, body = '''', message = ''M''\<rparr>))))"
  unfolding sent_example_eq
  by (simp add: dispatchMessage_def fetch_def delete_def emit_def calls_def AList.delete_eq
        sendNextRequests.simps queue_length_def)

text \<open>
  C5, amended. If \<open>request_seq\<close> matches a registered callback, that callback is
  removed from the table and exactly one call is made: its success path when
  \<open>success\<close> is true, its failure path otherwise, in both cases with the whole response
  message; nothing is thrown. If it matches no registered callback, the response is
  dropped: no callback is called, nothing is thrown, and the state is what the drain
  loop alone produces.
\<close>

theorem dispatch_response:
  "(fst (fetch (client_callbacks s) (request_seq r)) = Some p \<longrightarrow>
      dispatchMessage s (ResponseMsg r)
        = (None,
           sendNextRequests
             (emit [Call (if success r then c p else e p) (ResponseObj r)]
                (s\<lparr>client_callbacks := delete (client_callbacks s) (request_seq r)\<rparr>)))
      \<and> calls (snd (dispatchMessage s (ResponseMsg r)))
          = calls s @ [Call (if success r then c p else e p) (ResponseObj r)])
   \<and> (fst (fetch (client_callbacks s) (request_seq r)) = None \<longrightarrow>
      dispatchMessage s (ResponseMsg r) = (None, sendNextRequests s)
      \<and> calls (snd (dispatchMessage s (ResponseMsg r))) = calls s)"
proof (cases "fst (fetch (client_callbacks s) (request_seq r))")
  case None
  then have "fetch (client_callbacks s) (request_seq r) = (None, client_callbacks s)"
    using fetch_absent [of "client_callbacks s" "request_seq r"]
    by (metis prod.collapse)
  then show ?thesis
    by (simp add: dispatchMessage_def calls_sendNextRequests)
next
  case (Some p')
  then have "fetch (client_callbacks s) (request_seq r)
               = (Some p', delete (client_callbacks s) (request_seq r))"
    by (simp add: fetch_def Let_def)
  then show ?thesis
    using Some by (simp add: dispatchMessage_def calls_sendNextRequests) (simp add: calls_def emit_def)
qed

text \<open>
  Witness for C5: at \<open>sent_example\<close>, sequence number 0 is registered and 7 is not.
\<close>

theorem dispatch_response_witness:
  "fst (fetch (client_callbacks sent_example) 0)
       = Some \<lparr>c = ResolveFn 0, e = RejectFn 0, start = 0\<rparr>
   \<and> calls (snd (dispatchMessage sent_example
        (ResponseMsg \<lparr>request_seq = 0, success = True, body = ''B'', message = ''''\<rparr>)))
     = [Call (ResolveFn 0)
          (ResponseObj \<lparr>request_seq = 0, success = True, body = ''B'', message = ''''\<rparr>)]
   \<and> fst (fetch (client_callbacks sent_example) 7) = None
   \<and> calls (snd (dispatchMessage sent_example
        (ResponseMsg \<lparr>request_seq = 7, success = True, body = ''B'', message = ''''\<rparr>))) = []"
proof -
  have h1: "fst (fetch (client_callbacks sent_example) 0)
              = Some \<lparr>c = ResolveFn 0, e = RejectFn 0, start = 0\<rparr>"
    by (simp add: sent_example_eq fetch_def)
  have h2: "fst (fetch (client_callbacks sent_example) 7) = None"
    by (simp add: sent_example_eq fetch_def)
  have c0: "calls sent_example = []"
    by (simp add: sent_example_eq calls_def)
  have a: "calls (snd (dispatchMessage sent_example
        (ResponseMsg \<lparr>request_seq = 0, success = True, body = ''B'', message = ''''\<rparr>)))
     = calls sent_example @ [Call (ResolveFn 0)
          (ResponseObj \<lparr>request_seq = 0, success = True, body = ''B'', message = ''''\<rparr>)]"
    using dispatch_response [of sent_example
        "\<lparr>request_seq = 0, success = True, body = ''B'', message = ''''\<rparr>"
        "\<lparr>c = ResolveFn 0, e = RejectFn 0, start = 0\<rparr>", THEN conjunct1, rule_format,
        THEN conjunct2] h1
    by simp
  have b: "calls (snd (dispatchMessage sent_example
        (ResponseMsg \<lparr>request_seq = 7, success = True, body = ''B'', message = ''''\<rparr>)))
     = calls sent_example"
    using dispatch_response [of sent_example
        "\<lparr>request_seq = 7, success = True, body = ''B'', message = ''''\<rparr>",
        THEN conjunct2, rule_format, THEN conjunct2] h2
    by simp
  show ?thesis
    using a b h1 h2 c0 by simp
qed

section \<open>A message of unknown type\<close>

text \<open>
  C9. For a message whose type is neither \<^verbatim>\<open>response\<close> nor \<^verbatim>\<open>event\<close>,
  \<^verbatim>\<open>dispatchMessage\<close> throws the error \<^verbatim>\<open>Unknown message type ... received\<close> after the
  drain loop has run again; the reader logs it as a \<^verbatim>\<open>ReaderError\<close> and the client goes
  on. No callback is called, and the table and the queue are what the drain loop alone
  makes of them.
\<close>

theorem unknown_message_type:
  "dispatchMessage s (OtherMsg ty)
     = (Some (ErrorObj (''Unknown message type '' @ ty @ '' received'')), sendNextRequests s)
   \<and> reader_deliver s (OtherMsg ty)
       = emit [LogError ''ReaderError'' (ErrorObj (''Unknown message type '' @ ty @ '' received''))]
           (sendNextRequests s)
   \<and> calls (reader_deliver s (OtherMsg ty)) = calls s
   \<and> client_callbacks (reader_deliver s (OtherMsg ty)) = client_callbacks (sendNextRequests s)
   \<and> requestQueue (reader_deliver s (OtherMsg ty)) = requestQueue (sendNextRequests s)"
  using calls_sendNextRequests [of s]
  by (simp add: dispatchMessage_def reader_deliver_def emit_def calls_def)

section \<open>Destroying the table\<close>

text \<open>
  C3 at the table with the synchronous callback 0 and the asynchronous callback 1:
  \<^verbatim>\<open>destroy\<close> calls the failure path of both, once each, empties the synchronous map and
  zeroes the counter, but the asynchronous map still holds callback 1, and a later
  \<^verbatim>\<open>fetch\<close> returns it.
\<close>

theorem destroy_keeps_asyncCallbacks:
  "fst (destroy table_example (ErrorObj ''Service died.''))
     = [Call (RejectFn 0) (ErrorObj ''Service died.''),
        Call (RejectFn 1) (ErrorObj ''Service died.'')]
   \<and> callbacks (snd (destroy table_example (ErrorObj ''Service died.''))) = []
   \<and> pendingResponses (snd (destroy table_example (ErrorObj ''Service died.''))) = 0
   \<and> asyncCallbacks (snd (destroy table_example (ErrorObj ''Service died.'')))
       = [(1, \<lparr>c = ResolveFn 1, e = RejectFn 1, start = 0\<rparr>)]
   \<and> fst (fetch (snd (destroy table_example (ErrorObj ''Service died.''))) 1)
       = Some \<lparr>c = ResolveFn 1, e = RejectFn 1, start = 0\<rparr>"
  by (simp add: table_example_def destroy_def add_def new_CallbackMap_def fetch_def)

section \<open>Sequence numbers\<close>

text \<open>
  What holds of the sequence numbers: \<^verbatim>\<open>createRequest\<close> returns the counter and
  increments it, so the requests created on one queue are numbered 0, 1, 2, ... from a
  fresh queue on, and in every state the client reaches the queued requests carry
  distinct numbers. A fresh queue has counter 0, and \<^verbatim>\<open>startService\<close> installs one:
  so does \<^verbatim>\<open>service\<close> when it has to start the service, and \<^verbatim>\<open>serviceExited\<close>
  whenever it restarts the worker.
\<close>

lemma sequence_numbers_per_queue:
  "seq (fst (createRequest q cmd args)) = sequenceNumber q
   \<and> sequenceNumber (snd (createRequest q cmd args)) = sequenceNumber q + 1
   \<and> queue (snd (createRequest q cmd args)) = queue q
   \<and> map seq (fst (createRequests new_RequestQueue cs)) = [0 ..< length cs]
   \<and> distinct (queued_seqs (run (new_Client t dv pv tf) acts))
   \<and> sequenceNumber new_RequestQueue = 0
   \<and> requestQueue (startService s) = new_RequestQueue
   \<and> requestQueue (snd (service s))
       = (if servicePromise s = None \<and> lastError s = None then new_RequestQueue
          else requestQueue s)
   \<and> requestQueue (serviceExited s True)
       = (if fst (snd (restart_policy (numberRestarts s) (now s - lastStart s)))
          then new_RequestQueue else requestQueue s)"
proof -
  have "numbered (run (new_Client t dv pv tf) acts)" by (rule numbered_run) simp
  then have d: "distinct (queued_seqs (run (new_Client t dv pv tf) acts))"
    by (simp add: numbered_def)
  have st: "requestQueue (startService s') = new_RequestQueue" for s'
    by (simp add: startService_def Let_def)
  have sv: "requestQueue (snd (service s))
       = (if servicePromise s = None \<and> lastError s = None then new_RequestQueue
          else requestQueue s)"
    by (auto simp: service_def Let_def st split: option.splits)
  have ex: "requestQueue (serviceExited s True)
       = (if fst (snd (restart_policy (numberRestarts s) (now s - lastStart s)))
          then new_RequestQueue else requestQueue s)"
    by (simp add: serviceExited_def restart_policy_def Let_def split_beta st emit_def
          resetClientVersion_def)
  show ?thesis
    using createRequests_seqs [of new_RequestQueue cs] d sv ex
    by (simp add: createRequest_def new_RequestQueue_def st)
qed

text \<open>
  C6 at \<open>duplicate_example\<close>: the client has neither a service promise nor a recorded
  error. The first request takes number 0 from the queue of the constructor; sending it
  starts the service, which installs a fresh queue, so the second request takes number
  0 again. Both wait for the same service promise, and when the fork has succeeded both
  are written to that one worker: two requests of one session carry the same sequence
  number.
\<close>

theorem lazy_start_repeats_sequence_number:
  "servicePromise client0 = None \<and> lastError client0 = None
   \<and> effects duplicate_example
       = [TraceRequest \<lparr>seq = 0, command = ''quickinfo'', arguments = ''a''\<rparr>,
          TraceRequest \<lparr>seq = 0, command = ''completions'', arguments = ''b''\<rparr>,
          Fire ''onTsServerStarted'',
          Write \<lparr>seq = 0, command = ''quickinfo'', arguments = ''a''\<rparr>,
          Write \<lparr>seq = 0, command = ''completions'', arguments = ''b''\<rparr>]
   \<and> sequenceNumber (requestQueue (execute client0 ''quickinfo'' ''a'')) = 0
   \<and> servicePromise duplicate_example = Some Fulfilled"
  by code_simp

section \<open>Fetching a callback\<close>

lemma fetch_twice:
  assumes "map_of (callbacks t) sq = None \<or> map_of (asyncCallbacks t) sq = None"
  shows "fst (fetch (snd (fetch t sq)) sq) = None
       \<and> map_of (callbacks (snd (fetch t sq))) sq = None
       \<and> map_of (asyncCallbacks (snd (fetch t sq))) sq = None"
  using assms
  by (auto simp: fetch_def delete_def Let_def map_of_delete_same delete_absent
        split: option.splits)

text \<open>
  C7. \<^verbatim>\<open>fetch\<close> returns the registered callback if there is one, and the counter is
  decremented exactly when the entry it removes is a synchronous one; the entries of
  other sequence numbers stay. For a sequence number that is not registered in both
  maps at once the entry is gone afterwards and a second \<^verbatim>\<open>fetch\<close> returns nothing; that
  is the case in every state the client reaches, where each sequence number is
  registered once.
\<close>

theorem fetch_once:
  "(\<forall>cb. map_of (callbacks t) sq = Some cb \<longrightarrow>
      fst (fetch t sq) = Some cb
      \<and> pendingResponses (snd (fetch t sq)) = pendingResponses t - 1)
   \<and> (\<forall>cb. map_of (callbacks t) sq = None \<and> map_of (asyncCallbacks t) sq = Some cb \<longrightarrow>
      fst (fetch t sq) = Some cb
      \<and> pendingResponses (snd (fetch t sq)) = pendingResponses t)
   \<and> (map_of (callbacks t) sq = None \<and> map_of (asyncCallbacks t) sq = None \<longrightarrow>
      fetch t sq = (None, t))
   \<and> (\<forall>k. k \<noteq> sq \<longrightarrow>
      map_of (callbacks (snd (fetch t sq))) k = map_of (callbacks t) k
      \<and> map_of (asyncCallbacks (snd (fetch t sq))) k = map_of (asyncCallbacks t) k)
   \<and> (map_of (callbacks t) sq = None \<or> map_of (asyncCallbacks t) sq = None \<longrightarrow>
      fst (fetch (snd (fetch t sq)) sq) = None
      \<and> map_of (callbacks (snd (fetch t sq))) sq = None
      \<and> map_of (asyncCallbacks (snd (fetch t sq))) sq = None)
   \<and> fst (fetch (snd (fetch (client_callbacks (run (new_Client t0 dv pv tf) acts)) sq)) sq)
       = None"
proof -
  have "fst (fetch (snd (fetch (client_callbacks (run (new_Client t0 dv pv tf) acts)) sq)) sq)
          = None"
    using fetch_twice [OF registered_once [of t0 dv pv tf acts sq]] by simp
  moreover have "(\<forall>cb. map_of (callbacks t) sq = Some cb \<longrightarrow>
      fst (fetch t sq) = Some cb
      \<and> pendingResponses (snd (fetch t sq)) = pendingResponses t - 1)
   \<and> (\<forall>cb. map_of (callbacks t) sq = None \<and> map_of (asyncCallbacks t) sq = Some cb \<longrightarrow>
      fst (fetch t sq) = Some cb
      \<and> pendingResponses (snd (fetch t sq)) = pendingResponses t)
   \<and> (map_of (callbacks t) sq = None \<and> map_of (asyncCallbacks t) sq = None \<longrightarrow>
      fetch t sq = (None, t))
   \<and> (\<forall>k. k \<noteq> sq \<longrightarrow>
      map_of (callbacks (snd (fetch t sq))) k = map_of (callbacks t) k
      \<and> map_of (asyncCallbacks (snd (fetch t sq))) k = map_of (asyncCallbacks t) k)"
    by (auto simp: fetch_def delete_def Let_def delete_absent AList.delete_conv
          split: option.splits)
  ultimately show ?thesis
    using fetch_twice [of t sq] by blast
qed

text \<open>
  Witness for C7: in \<open>table_example\<close>, 0 is registered synchronously, 1 asynchronously,
  2 not at all; and the table of \<open>sent_example\<close>, reached by two actions.
\<close>

theorem fetch_once_witness:
  "map_of (callbacks table_example) 0 = Some \<lparr>c = ResolveFn 0, e = RejectFn 0, start = 0\<rparr>
   \<and> map_of (asyncCallbacks table_example) 0 = None
   \<and> fst (fetch table_example 0) = Some \<lparr>c = ResolveFn 0, e = RejectFn 0, start = 0\<rparr>
   \<and> pendingResponses (snd (fetch table_example 0)) = pendingResponses table_example - 1
   \<and> fst (fetch (snd (fetch table_example 0)) 0) = None
   \<and> map_of (callbacks table_example) 1 = None
   \<and> map_of (asyncCallbacks table_example) 1
       = Some \<lparr>c = ResolveFn 1, e = RejectFn 1, start = 0\<rparr>
   \<and> fst (fetch table_example 1) = Some \<lparr>c = ResolveFn 1, e = RejectFn 1, start = 0\<rparr>
   \<and> pendingResponses (snd (fetch table_example 1)) = pendingResponses table_example
   \<and> fst (fetch (snd (fetch table_example 1)) 1) = None
   \<and> map_of (callbacks table_example) 2 = None
   \<and> map_of (asyncCallbacks table_example) 2 = None
   \<and> fetch table_example 2 = (None, table_example)
   \<and> fst (fetch (snd (fetch (client_callbacks
        (run client0 [EnsureServiceStarted, Execute ''quickinfo'' ''a''])) 0)) 0) = None"
proof -
  have m: "map_of (callbacks table_example) 0 = Some \<lparr>c = ResolveFn 0, e = RejectFn 0, start = 0\<rparr>"
    "map_of (asyncCallbacks table_example) 0 = None"
    "map_of (callbacks table_example) 1 = None"
    "map_of (asyncCallbacks table_example) 1 = Some \<lparr>c = ResolveFn 1, e = RejectFn 1, start = 0\<rparr>"
    "map_of (callbacks table_example) 2 = None"
    "map_of (asyncCallbacks table_example) 2 = None"
    by (simp_all add: table_example_def add_def new_CallbackMap_def)
  show ?thesis
    using fetch_once [of table_example 0 0 "API 1 0 0" "Some (API 2 0 0)" "''/tmp/tscancellation''"
        "[EnsureServiceStarted, Execute ''quickinfo'' ''a'']"]
      fetch_once [of table_example 1] fetch_once [of table_example 2] m
    by (simp add: client0_def)
qed

section \<open>Cancelling a request that is still queued\<close>

lemma queue_cancel_removes_entry:
  assumes "seq (request item) = sq" "\<forall>i \<in> set before. seq (request i) \<noteq> sq"
    and "queue q = before @ item # after"
  shows "tryCancelPendingRequest q sq = (True, q\<lparr>queue := before @ after\<rparr>)"
  using cancel_scan_present [OF assms(1,2), of after] assms(3)
  by (simp add: tryCancelPendingRequest_def)

text \<open>
  C8 at \<open>queued_example\<close>, where request 1 waits in the queue behind the outstanding
  request 0: the scan removes exactly that entry and reports \<open>True\<close>, but no callback is
  called. The callbacks of request 1 were only in the removed entry, never in the
  table, so whatever happens afterwards its promise, number 1, is neither rejected nor
  resolved.
\<close>

theorem queue_cancel_leaves_promise_pending:
  "queue (requestQueue queued_example)
     = [\<lparr>request = \<lparr>seq = 1, command = ''completions'', arguments = ''b''\<rparr>,
         item_callbacks = Some \<lparr>c = ResolveFn 1, e = RejectFn 1, start = 0\<rparr>,
         isAsync = False\<rparr>]
   \<and> fst (tryCancelRequest queued_example 1) = True
   \<and> snd (tryCancelRequest queued_example 1)
       = queued_example\<lparr>requestQueue := \<lparr>queue = [], sequenceNumber = 2\<rparr>\<rparr>
   \<and> calls (snd (tryCancelRequest queued_example 1)) = []
   \<and> Call (RejectFn 1) v \<notin> set (effects (run (snd (tryCancelRequest queued_example 1)) acts))
   \<and> Call (ResolveFn 1) v \<notin> set (effects (run (snd (tryCancelRequest queued_example 1)) acts))"
proof -
  have s: "snd (tryCancelRequest queued_example 1)
             = queued_example\<lparr>requestQueue := \<lparr>queue = [], sequenceNumber = 2\<rparr>\<rparr>"
    and r: "fst (tryCancelRequest queued_example 1) = True"
    unfolding queued_example_eq sent_example_eq
    by (simp_all add: tryCancelRequest_def tryCancelPendingRequest_def fetch_def delete_def)
  have "lost 1 (queued_example\<lparr>requestQueue := \<lparr>queue = [], sequenceNumber = 2\<rparr>\<rparr>)"
    unfolding queued_example_eq sent_example_eq
    by (simp add: lost_def held_callbacks_def called_promises_def)
  then show ?thesis
    using lost_never_called [of 1 "snd (tryCancelRequest queued_example 1)" v acts] r
    unfolding s
    by (simp add: queued_example_eq sent_example_eq calls_def)
qed

section \<open>A failed transmission\<close>

text \<open>
  What holds: a callback that is still registered when the failure reaction runs is
  removed and its failure path is called with the error. After a failed fork the
  service promise stays pending, so no reaction runs at all.
\<close>

lemma sendRequest_failed_registered:
  assumes "fst (fetch (client_callbacks s) (seq req)) = Some cb"
  shows "sendRequest_failed s req err
           = emit [Call (e cb) err] (s\<lparr>client_callbacks := delete (client_callbacks s) (seq req)\<rparr>)"
  using assms by (simp add: sendRequest_failed_def fetch_def Let_def)

lemma onForkFailed_keeps_promise_pending:
  "servicePromise (onForkFailed s err) = servicePromise s
   \<and> client_callbacks (onForkFailed s err) = client_callbacks s
   \<and> calls (onForkFailed s err) = calls s"
  by (simp add: onForkFailed_def resetClientVersion_def emit_def calls_def)

text \<open>
  C10 at \<open>lazy_example\<close>: the request is issued while no service promise exists and no
  error is recorded. \<^verbatim>\<open>sendRequest\<close> registers the callback and then asks for the
  service, which starts it and installs a fresh table: the callback is gone. When the
  start is rejected and the failure reaction of the request runs, it finds no callback
  and calls none; and whatever happens afterwards the promise of the request, number 0,
  is neither rejected nor resolved.
\<close>

theorem lazy_start_orphans_callback:
  "servicePromise client0 = None \<and> lastError client0 = None
   \<and> effects lazy_example = [TraceRequest \<lparr>seq = 0, command = ''quickinfo'', arguments = ''a''\<rparr>]
   \<and> promises lazy_example = 1
   \<and> client_callbacks lazy_example = new_CallbackMap
   \<and> queue (requestQueue lazy_example) = []
   \<and> servicePromise (onStartRejected lazy_example (ErrorObj ''spawn failed''))
       = Some (Rejected (ErrorObj ''spawn failed''))
   \<and> calls (sendRequest_failed (onStartRejected lazy_example (ErrorObj ''spawn failed''))
               \<lparr>seq = 0, command = ''quickinfo'', arguments = ''a''\<rparr> (ErrorObj ''spawn failed''))
       = []
   \<and> Call (RejectFn 0) v \<notin> set (effects (run lazy_example acts))
   \<and> Call (ResolveFn 0) v \<notin> set (effects (run lazy_example acts))"
proof -
  have "lost 0 lazy_example"
    unfolding lazy_example_eq by (simp add: lost_def held_callbacks_def called_promises_def)
  then show ?thesis
    using lost_never_called [of 0 lazy_example v acts]
    by (simp add: lazy_example_eq client0_def new_Client_def new_CallbackMap_def
          onStartRejected_def settle_def sendRequest_failed_def fetch_def delete_def calls_def)
qed

section \<open>The restart policy\<close>

lemma accounting_service [simp]: "accounting (snd (service s)) = accounting s"
  by (auto simp: service_def startService_def accounting_def notices_def Let_def split: option.splits)

lemma accounting_sendRequest [simp]: "accounting (sendRequest s item) = accounting s"
proof -
  have "accounting (snd (service s')) = accounting s" if "accounting s' = accounting s" for s'
    using that by simp
  then show ?thesis
    by (simp add: sendRequest_def Let_def emit_def accounting_def notices_def split: option.splits)
qed

lemma accounting_sendNextRequests [simp]: "accounting (sendNextRequests s) = accounting s"
proof (rule sendNextRequests_preserves [where P = "\<lambda>s'. accounting s' = accounting s"])
  show "accounting s = accounting s" by simp
next
  fix s' assume "accounting s' = accounting s"
  then have "accounting (dequeue s') = accounting s"
    by (simp add: accounting_def notices_def dequeue_def)
  then show "accounting (sendRequest (dequeue s') (hd (queue (requestQueue s')))) = accounting s"
    by simp
qed

lemma accounting_executeImpl [simp]: "accounting (executeImpl s cmd args a r) = accounting s"
  by (simp add: executeImpl_def Let_def split_beta) (simp add: accounting_def notices_def)

lemma accounting_emit_Fire [simp]: "accounting (emit [Fire x] s) = accounting s"
  by (simp add: accounting_def notices_def emit_def)

lemma accounting_serviceStarted [simp]: "accounting (serviceStarted s r) = accounting s"
  by (simp add: serviceStarted_def setCompilerOptionsForInferredProjects_def
        executeWithoutWaitingForResponse_def Let_def)

lemma accounting_onForked:
  "accounting (onForked s r) = (numberRestarts s, isRestarting s, now s, now s, notices s)"
proof -
  have "accounting (settle Fulfilled (s\<lparr>lastStart := now s\<rparr>))
          = (numberRestarts s, isRestarting s, now s, now s, notices s)"
    by (simp add: accounting_def notices_def settle_def split: option.splits Thenable.splits)
  then show ?thesis
    by (simp add: onForked_def Let_def)
qed

lemma servicePromise_startService [simp]: "servicePromise (startService s) = Some Pending"
  by (simp add: startService_def Let_def)

lemma accounting_startService [simp]: "accounting (startService s) = accounting s"
  by (simp add: startService_def Let_def accounting_def notices_def)

lemma numberRestarts_startService [simp]: "numberRestarts (startService s) = numberRestarts s"
  by (simp add: startService_def Let_def)

lemma notices_append: "filter is_notice (xs @ map (\<lambda>cb. Call (f cb) v) ys) = filter is_notice xs"
  by (induction ys rule: rev_induct) auto

lemma serviceExited_policy:
  "numberRestarts (serviceExited s True)
     = fst (restart_policy (numberRestarts s) (now s - lastStart s))
   \<and> servicePromise (serviceExited s True)
       = (if fst (snd (restart_policy (numberRestarts s) (now s - lastStart s)))
          then Some Pending else None)
   \<and> effects (serviceExited s True)
       = effects s @ fst (destroy (client_callbacks s) (ErrorObj ''Service died.''))
           @ notice_effects (snd (snd (restart_policy (numberRestarts s) (now s - lastStart s))))"
  by (simp add: serviceExited_def restart_policy_def Let_def split_beta emit_def
        resetClientVersion_def)

lemma notices_serviceExited:
  "notices (serviceExited s True)
     = notices s @ filter is_notice
         (notice_effects (snd (snd (restart_policy (numberRestarts s) (now s - lastStart s)))))"
  using serviceExited_policy [of s]
  by (simp add: notices_def destroy_def notices_append)

lemma isRestarting_serviceExited [simp]: "isRestarting (serviceExited s r) = isRestarting s"
  by (simp add: serviceExited_def Let_def split_beta emit_def resetClientVersion_def startService_def)

lemma crash_cycle_policy:
  assumes "\<not> isRestarting s"
  shows "numberRestarts (crash_cycle s (a, b, code)) = fst (restart_policy (numberRestarts s) (b - a))
    \<and> \<not> isRestarting (crash_cycle s (a, b, code))
    \<and> servicePromise (crash_cycle s (a, b, code))
        = (if fst (snd (restart_policy (numberRestarts s) (b - a))) then Some Pending else None)
    \<and> notices (crash_cycle s (a, b, code))
        = notices s @ filter is_notice (notice_effects (snd (snd (restart_policy (numberRestarts s) (b - a)))))"
proof -
  let ?f = "(onForked (s\<lparr>now := a\<rparr>) True)\<lparr>now := b\<rparr>"
  have acc: "accounting (onForked (s\<lparr>now := a\<rparr>) True)
               = (numberRestarts s, isRestarting s, a, a, notices s)"
    using accounting_onForked [of "s\<lparr>now := a\<rparr>" True] by (simp add: notices_def)
  let ?g = "case code of None \<Rightarrow> ?f
            | Some n \<Rightarrow> emit [LogError (''TSServer exited with code: '' @ show_int n) Undefined,
                 LogTelemetry ''tsserver.exitWithCode''] ?f"
  have g: "numberRestarts ?g = numberRestarts s" "isRestarting ?g = isRestarting s"
     "lastStart ?g = a" "now ?g = b" "notices ?g = notices s"
    using acc by (auto simp: accounting_def notices_def emit_def split: option.splits)
  have e: "crash_cycle s (a, b, code) = (serviceExited ?g True)\<lparr>isRestarting := False\<rparr>"
    using assms g(2) by (simp add: onExit_def Let_def)
  show ?thesis
    unfolding e using serviceExited_policy [of ?g] notices_serviceExited [of ?g] g
    by (simp add: notices_def)
qed

lemma crash_cycles_snoc: "crash_cycles s (cs @ [x]) = crash_cycle (crash_cycles s cs) x"
  by (simp add: crash_cycles_def)

lemma first_crashes_restart:
  assumes "numberRestarts s = 0" "\<not> isRestarting s" "length cycles \<le> 5"
  shows "numberRestarts (crash_cycles s cycles) = length cycles
    \<and> \<not> isRestarting (crash_cycles s cycles)
    \<and> notices (crash_cycles s cycles) = notices s
    \<and> (cycles \<noteq> [] \<longrightarrow> servicePromise (crash_cycles s cycles) = Some Pending)"
  using assms(3)
proof (induction cycles rule: rev_induct)
  case Nil
  then show ?case using assms by (simp add: crash_cycles_def)
next
  case (snoc x cs)
  obtain a b code where x: "x = (a, b, code)" by (cases x)
  from snoc have ih: "numberRestarts (crash_cycles s cs) = length cs"
    "\<not> isRestarting (crash_cycles s cs)" "notices (crash_cycles s cs) = notices s"
    and len: "length cs < 5" by auto
  show ?case
    using crash_cycle_policy [OF ih(2), of a b code] ih len
    by (simp add: crash_cycles_snoc x restart_policy_def)
qed

lemma sixth_crash:
  assumes "numberRestarts s = 0" "\<not> isRestarting s" "length cycles = 6"
  shows "numberRestarts (crash_cycles s cycles) = 0
    \<and> servicePromise (crash_cycles s cycles)
        = (if fst (snd (last cycles)) - fst (last cycles) < 10000 then None else Some Pending)
    \<and> notices (crash_cycles s cycles)
        = notices s @ filter is_notice (notice_effects
            (if fst (snd (last cycles)) - fst (last cycles) < 10000 then FatalNotice
             else if fst (snd (last cycles)) - fst (last cycles) < 60000 then WarningNotice
             else NoNotice))"
proof -
  obtain cs x where c: "cycles = cs @ [x]"
    using assms(3) by (cases cycles rule: rev_cases) auto
  obtain a b code where x: "x = (a, b, code)" by (cases x)
  have len: "length cs = 5" using assms(3) c by simp
  note f = first_crashes_restart [OF assms(1,2), of cs]
  have ih: "numberRestarts (crash_cycles s cs) = 5" "\<not> isRestarting (crash_cycles s cs)"
    "notices (crash_cycles s cs) = notices s"
    using f len by auto
  show ?thesis
    using crash_cycle_policy [OF ih(2), of a b code] ih
    by (simp add: c crash_cycles_snoc x restart_policy_def)
qed

text \<open>
  C4. On an unexpected exit (\<^verbatim>\<open>serviceExited(true)\<close>) the client does what the policy
  of the specification says, for every state: the new restart counter, whether the
  service is started again, and the notice shown are those of \<open>restart_policy\<close> at the
  old counter and the time since the last start. In particular, starting from a fresh
  client, up to five sessions that crash are each restarted without a notice, whatever
  the times; and when six sessions crash, each within 10 seconds of its start, the
  sixth is not restarted and the fatal notice is shown.
\<close>

theorem restart_policy_followed:
  "numberRestarts (serviceExited s True)
     = fst (restart_policy (numberRestarts s) (now s - lastStart s))
   \<and> servicePromise (serviceExited s True)
       = (if fst (snd (restart_policy (numberRestarts s) (now s - lastStart s)))
          then Some Pending else None)
   \<and> effects (serviceExited s True)
       = effects s @ fst (destroy (client_callbacks s) (ErrorObj ''Service died.''))
           @ notice_effects (snd (snd (restart_policy (numberRestarts s) (now s - lastStart s))))
   \<and> (length cycles \<le> 5 \<and> cycles \<noteq> [] \<longrightarrow>
        servicePromise (crash_cycles (ensureServiceStarted (new_Client t dv pv tf)) cycles)
          = Some Pending
        \<and> numberRestarts (crash_cycles (ensureServiceStarted (new_Client t dv pv tf)) cycles)
          = length cycles
        \<and> notices (crash_cycles (ensureServiceStarted (new_Client t dv pv tf)) cycles) = [])
   \<and> (length cycles = 6 \<and> (\<forall>(started, exited, code) \<in> set cycles. exited - started < 10000) \<longrightarrow>
        servicePromise (crash_cycles (ensureServiceStarted (new_Client t dv pv tf)) cycles) = None
        \<and> numberRestarts (crash_cycles (ensureServiceStarted (new_Client t dv pv tf)) cycles) = 0
        \<and> notices (crash_cycles (ensureServiceStarted (new_Client t dv pv tf)) cycles)
            = [ShowErrorMessage ''serverDiedAfterStart''])"
proof -
  let ?s = "ensureServiceStarted (new_Client t dv pv tf)"
  have s: "numberRestarts ?s = 0" "\<not> isRestarting ?s" "notices ?s = []"
    by (simp_all add: ensureServiceStarted_def new_Client_def startService_def Let_def notices_def)
  have six: "servicePromise (crash_cycles ?s cycles) = None
        \<and> numberRestarts (crash_cycles ?s cycles) = 0
        \<and> notices (crash_cycles ?s cycles) = [ShowErrorMessage ''serverDiedAfterStart'']"
    if "length cycles = 6" "\<forall>(started, exited, code) \<in> set cycles. exited - started < 10000"
  proof -
    have "cycles \<noteq> []" using that(1) by auto
    then have "last cycles \<in> set cycles" by simp
    then have "fst (snd (last cycles)) - fst (last cycles) < 10000"
      using that(2) by (auto simp: split_beta)
    then show ?thesis
      using sixth_crash [OF s(1,2) that(1)] s(3) by simp
  qed
  show ?thesis
    using serviceExited_policy [of s] first_crashes_restart [OF s(1,2), of cycles] s(3) six
    by simp
qed

text \<open>
  Witness for C4: six sessions that each crash one second after their start, and the
  first five of them.
\<close>

theorem restart_policy_followed_witness:
  "servicePromise (crash_cycles started0
       [(1000, 2000, Some 1), (3000, 4000, Some 1), (5000, 6000, None),
        (7000, 8000, Some 1), (9000, 10000, Some 1), (11000, 12000, Some 1)]) = None
   \<and> notices (crash_cycles started0
       [(1000, 2000, Some 1), (3000, 4000, Some 1), (5000, 6000, None),
        (7000, 8000, Some 1), (9000, 10000, Some 1), (11000, 12000, Some 1)])
       = [ShowErrorMessage ''serverDiedAfterStart'']
   \<and> servicePromise (crash_cycles started0
       [(1000, 2000, Some 1), (3000, 4000, Some 1), (5000, 6000, None),
        (7000, 8000, Some 1), (9000, 10000, Some 1)]) = Some Pending
   \<and> notices (crash_cycles started0
       [(1000, 2000, Some 1), (3000, 4000, Some 1), (5000, 6000, None),
        (7000, 8000, Some 1), (9000, 10000, Some 1)]) = []"
  using restart_policy_followed [of client0
      "[(1000, 2000, Some 1), (3000, 4000, Some 1), (5000, 6000, None),
        (7000, 8000, Some 1), (9000, 10000, Some 1), (11000, 12000, Some 1)]"
      0 "API 1 0 0" "Some (API 2 0 0)" "''/tmp/tscancellation''"]
    restart_policy_followed [of client0
      "[(1000, 2000, Some 1), (3000, 4000, Some 1), (5000, 6000, None),
        (7000, 8000, Some 1), (9000, 10000, Some 1)]"
      0 "API 1 0 0" "Some (API 2 0 0)" "''/tmp/tscancellation''"]
  by (simp add: started0_def client0_def)

end
